theory Spec2Isabelle
  imports Main "HOL-Library.Multiset"
begin

section \<open>Values of the request body\<close>

text \<open>
  The fields of a JSON request body as the handlers see them. \<open>JUndefined\<close> is a field
  that the body does not carry. Numbers are integers (the code reads them as millisecond
  timestamps), arrays hold strings (the declared type of \<open>permissions\<close>), and \<open>JObj\<close>
  stands for any other object: its fields are never read. A string is a list of
  characters, and \<open>length\<close> counts them as \<open>s.length\<close> counts code units.
\<close>

datatype jsval =
  JUndefined
  | JNull
  | JBool bool
  | JNum int
  | JStr string
  | JArr "string list"
  | JObj

text \<open>JavaScript truthiness, as \<open>!x\<close>, \<open>x && y\<close> and \<open>x || y\<close> read it.\<close>

fun truthy :: "jsval \<Rightarrow> bool" where
  "truthy JUndefined = False"
| "truthy JNull = False"
| "truthy (JBool b) = b"
| "truthy (JNum n) = (n \<noteq> 0)"
| "truthy (JStr s) = (s \<noteq> [])"
| "truthy (JArr xs) = True"
| "truthy JObj = True"

fun isArray :: "jsval \<Rightarrow> bool" where
  "isArray (JArr xs) = True"
| "isArray v = False"

fun join_comma :: "string list \<Rightarrow> string" where
  "join_comma [] = []"
| "join_comma [x] = x"
| "join_comma (x # y # ys) = x @ '','' @ join_comma (y # ys)"

text \<open>
  \<open>Number(v)\<close>; \<open>None\<close> is NaN. How a string reads as a number is the parameter
  \<open>strToNum\<close>; an array is read through its comma-joined string.
\<close>

fun Number_js :: "(string \<Rightarrow> int option) \<Rightarrow> jsval \<Rightarrow> int option" where
  "Number_js strToNum JUndefined = None"
| "Number_js strToNum JNull = Some 0"
| "Number_js strToNum (JBool b) = Some (if b then 1 else 0)"
| "Number_js strToNum (JNum n) = Some n"
| "Number_js strToNum (JStr s) = strToNum s"
| "Number_js strToNum (JArr xs) = strToNum (join_comma xs)"
| "Number_js strToNum JObj = None"

definition is_ws :: "char \<Rightarrow> bool" where
  "is_ws c = (c \<in> {CHR '' '', CHR 0x09, CHR 0x0A, CHR 0x0B, CHR 0x0C, CHR 0x0D, CHR 0xA0})"

definition trim :: "string \<Rightarrow> string" where
  "trim s = rev (dropWhile is_ws (rev (dropWhile is_ws s)))"

text \<open>\<open>s.split(' ')\<close>: one part more than there are spaces, empty parts kept.\<close>

fun split_sp :: "string \<Rightarrow> string list" where
  "split_sp [] = [[]]"
| "split_sp (c # cs) =
     (if c = CHR '' '' then [] # split_sp cs
      else (case split_sp cs of [] \<Rightarrow> [[c]] | p # ps \<Rightarrow> (c # p) # ps))"

definition startsWith :: "string \<Rightarrow> string \<Rightarrow> bool" where
  "startsWith s p = (take (length p) s = p)"

section \<open>The key table\<close>

record ApiKeyRecord =
  id_r :: string
  name :: string
  prefix_r :: string
  keyHash :: string
  permissions :: "string list"
  createdAt :: int
  lastUsedAt :: "int option"
  expiresAt :: "int option"
  revoked :: bool

text \<open>
  The table \<open>api_keys\<close> is the list of its rows in insertion order, each row already read
  through \<open>rowToRecord\<close> (the permissions column is the JSON text of the list, parsed back
  on every read).
\<close>

type_synonym table = "ApiKeyRecord list"

datatype store_error = SqliteConstraint | BindError

text \<open>
  The prepared statements. \<open>insert\<close> fails on the PRIMARY KEY of \<open>id\<close> and on the UNIQUE
  constraint of \<open>key_hash\<close>. An UPDATE or DELETE returns the table and \<open>changes\<close>, which
  SQLite counts as the rows the WHERE clause selected, whether or not the assignment
  gave a row a new value.
\<close>

definition stmt_insert :: "ApiKeyRecord \<Rightarrow> table \<Rightarrow> store_error + table" where
  "stmt_insert row s =
     (if id_r row \<in> set (map id_r s) \<or> keyHash row \<in> set (map keyHash s)
      then Inl SqliteConstraint
      else Inr (s @ [row]))"

definition stmt_findByHash :: "string \<Rightarrow> table \<Rightarrow> ApiKeyRecord option" where
  "stmt_findByHash kh s = find (\<lambda>r. keyHash r = kh \<and> \<not> revoked r) s"

definition stmt_findById :: "string \<Rightarrow> table \<Rightarrow> ApiKeyRecord option" where
  "stmt_findById i s = find (\<lambda>r. id_r r = i) s"

text \<open>\<open>ORDER BY created_at DESC\<close>; rows with the same \<open>created_at\<close> keep table order.\<close>

definition stmt_listAll :: "table \<Rightarrow> ApiKeyRecord list" where
  "stmt_listAll s = sort_key (\<lambda>r. - createdAt r) s"

definition stmt_listActive :: "table \<Rightarrow> ApiKeyRecord list" where
  "stmt_listActive s = sort_key (\<lambda>r. - createdAt r) (filter (\<lambda>r. \<not> revoked r) s)"

definition stmt_revoke :: "string \<Rightarrow> table \<Rightarrow> table \<times> nat" where
  "stmt_revoke i s =
     (map (\<lambda>r. if id_r r = i then r\<lparr>revoked := True\<rparr> else r) s,
      length (filter (\<lambda>r. id_r r = i) s))"

definition stmt_updateLastUsed :: "int \<Rightarrow> string \<Rightarrow> table \<Rightarrow> table \<times> nat" where
  "stmt_updateLastUsed t i s =
     (map (\<lambda>r. if id_r r = i then r\<lparr>lastUsedAt := Some t\<rparr> else r) s,
      length (filter (\<lambda>r. id_r r = i) s))"

definition stmt_updateName :: "string \<Rightarrow> string \<Rightarrow> table \<Rightarrow> table \<times> nat" where
  "stmt_updateName n i s =
     (map (\<lambda>r. if id_r r = i then r\<lparr>name := n\<rparr> else r) s,
      length (filter (\<lambda>r. id_r r = i) s))"

definition stmt_deleteKey :: "string \<Rightarrow> table \<Rightarrow> table \<times> nat" where
  "stmt_deleteKey i s =
     (filter (\<lambda>r. id_r r \<noteq> i) s, length (filter (\<lambda>r. id_r r = i) s))"

definition stmt_count :: "table \<Rightarrow> nat" where
  "stmt_count s = length (filter (\<lambda>r. \<not> revoked r) s)"

text \<open>
  What the schema and \<open>create\<close> keep true of every table the store has written: ids and
  digests are unique, and no row carries the expiry \<open>0\<close> (\<open>create\<close> stores
  \<open>input.expiresAt || null\<close>).
\<close>

definition wf_table :: "table \<Rightarrow> bool" where
  "wf_table s \<longleftrightarrow>
     distinct (map id_r s) \<and> distinct (map keyHash s) \<and> list_all (\<lambda>r. expiresAt r \<noteq> Some 0) s"

section \<open>ApiKeyStore\<close>

text \<open>
  The store's methods, passing the table. The digest \<open>hashKey\<close> (SHA-256, hex) is the
  parameter \<open>h\<close>; the random hex string of \<open>generateKey\<close>, the UUID and every reading of
  the clock are arguments. A statement fails only where the schema makes it fail (the
  constraints of \<open>insert\<close>) and where the method expects it to (the touch in
  \<open>validate\<close>); failures of the engine itself are outside the model.
\<close>

record CreateApiKeyInput =
  name_in :: string
  permissions_in :: "string list option"
  expiresAt_in :: "int option"

definition generateKey :: "string \<Rightarrow> string" where
  "generateKey random = ''sk-'' @ random"

text \<open>\<open>x || null\<close> on an optional number: \<open>0\<close> is falsy.\<close>

definition or_null :: "int option \<Rightarrow> int option" where
  "or_null e = (case e of None \<Rightarrow> None | Some n \<Rightarrow> if n = 0 then None else Some n)"

text \<open>\<open>x || ['*']\<close> on an optional array: every array is truthy, the empty one too.\<close>

definition or_star :: "string list option \<Rightarrow> string list" where
  "or_star p = (case p of None \<Rightarrow> [''*''] | Some xs \<Rightarrow> xs)"

definition create ::
  "(string \<Rightarrow> string) \<Rightarrow> string \<Rightarrow> string \<Rightarrow> int \<Rightarrow> CreateApiKeyInput \<Rightarrow> table
    \<Rightarrow> store_error + ((string \<times> ApiKeyRecord) \<times> table)" where
  "create h random uuid now input s =
     (let key = generateKey random;
          kh = h key;
          prefix = take 10 key @ ''...'';
          record = \<lparr> id_r = uuid, name = name_in input, prefix_r = prefix, keyHash = kh,
                     permissions = or_star (permissions_in input), createdAt = now,
                     lastUsedAt = None, expiresAt = or_null (expiresAt_in input),
                     revoked = False \<rparr>
      in case stmt_insert record s of
           Inl e \<Rightarrow> Inl e
         | Inr s' \<Rightarrow> Inr ((key, record), s'))"

text \<open>
  The route does not check the type of \<open>expiresAt\<close>, so \<open>create\<close> can be handed a
  non-empty string where its input type says number. \<open>input.expiresAt || null\<close> keeps
  the string, the statement binds it as text, and the INTEGER affinity of the column
  \<open>expires_at\<close> keeps the number that the text reads as, \<open>0\<close> included. \<open>create_text\<close>
  is \<open>create\<close> on such an input, with that number as \<open>kept\<close>; the record it returns is
  given the column's number too, where the code's carries the string.
\<close>

definition create_text ::
  "(string \<Rightarrow> string) \<Rightarrow> string \<Rightarrow> string \<Rightarrow> int \<Rightarrow> CreateApiKeyInput \<Rightarrow> int option \<Rightarrow> table
    \<Rightarrow> store_error + ((string \<times> ApiKeyRecord) \<times> table)" where
  "create_text h random uuid now input kept s =
     (let key = generateKey random;
          kh = h key;
          prefix = take 10 key @ ''...'';
          record = \<lparr> id_r = uuid, name = name_in input, prefix_r = prefix, keyHash = kh,
                     permissions = or_star (permissions_in input), createdAt = now,
                     lastUsedAt = None, expiresAt = kept, revoked = False \<rparr>
      in case stmt_insert record s of
           Inl e \<Rightarrow> Inl e
         | Inr s' \<Rightarrow> Inr ((key, record), s'))"

text \<open>
  \<open>validate\<close> reads the clock at the expiry check (\<open>t_check\<close>) and again for the touch
  (\<open>t_touch\<close>); \<open>touch_throws\<close> says that the \<open>updateLastUsed\<close> statement throws, which
  the method catches.
\<close>

definition validate ::
  "(string \<Rightarrow> string) \<Rightarrow> int \<Rightarrow> int \<Rightarrow> bool \<Rightarrow> string \<Rightarrow> table
    \<Rightarrow> ApiKeyRecord option \<times> table" where
  "validate h t_check t_touch touch_throws key s =
     (case stmt_findByHash (h key) s of
        None \<Rightarrow> (None, s)
      | Some record \<Rightarrow>
          if (case expiresAt record of None \<Rightarrow> False | Some e \<Rightarrow> e \<noteq> 0 \<and> t_check > e)
          then (None, s)
          else if touch_throws then (Some record, s)
          else (Some record, fst (stmt_updateLastUsed t_touch (id_r record) s)))"

definition getById :: "string \<Rightarrow> table \<Rightarrow> ApiKeyRecord option" where
  "getById i s = stmt_findById i s"

definition list_keys :: "bool \<Rightarrow> table \<Rightarrow> ApiKeyRecord list" where
  "list_keys includeRevoked s = (if includeRevoked then stmt_listAll s else stmt_listActive s)"

definition revoke :: "string \<Rightarrow> table \<Rightarrow> bool \<times> table" where
  "revoke i s = (case stmt_revoke i s of (s', changes) \<Rightarrow> (changes > 0, s'))"

definition delete_key :: "string \<Rightarrow> table \<Rightarrow> bool \<times> table" where
  "delete_key i s = (case stmt_deleteKey i s of (s', changes) \<Rightarrow> (changes > 0, s'))"

definition updateName :: "string \<Rightarrow> string \<Rightarrow> table \<Rightarrow> bool \<times> table" where
  "updateName i n s = (case stmt_updateName n i s of (s', changes) \<Rightarrow> (changes > 0, s'))"

definition getActiveCount :: "table \<Rightarrow> nat" where
  "getActiveCount s = stmt_count s"

text \<open>One call of a public method of the store, and the table it leaves.\<close>

datatype store_op =
  OpCreate string string int CreateApiKeyInput
  | OpValidate int int bool string
  | OpGetById string
  | OpList bool
  | OpRevoke string
  | OpDelete string
  | OpUpdateName string string
  | OpActiveCount

fun apply_op :: "(string \<Rightarrow> string) \<Rightarrow> store_op \<Rightarrow> table \<Rightarrow> table" where
  "apply_op h (OpCreate random uuid now input) s =
     (case create h random uuid now input s of Inl e \<Rightarrow> s | Inr (res, s') \<Rightarrow> s')"
| "apply_op h (OpValidate t_check t_touch touch_throws key) s =
     snd (validate h t_check t_touch touch_throws key s)"
| "apply_op h (OpGetById i) s = s"
| "apply_op h (OpList includeRevoked) s = s"
| "apply_op h (OpRevoke i) s = snd (revoke i s)"
| "apply_op h (OpDelete i) s = snd (delete_key i s)"
| "apply_op h (OpUpdateName i n) s = snd (updateName i n s)"
| "apply_op h OpActiveCount s = s"

fun run_ops :: "(string \<Rightarrow> string) \<Rightarrow> store_op list \<Rightarrow> table \<Rightarrow> table" where
  "run_ops h [] s = s"
| "run_ops h (op # ops) s = run_ops h ops (apply_op h op s)"

section \<open>Responses\<close>

text \<open>
  \<open>ERROR_CODES\<close>, \<open>errorResponse\<close> and \<open>successResponse\<close> come from
  \<open>utils/response.js\<close>; a response is its HTTP status and its payload.
\<close>

datatype error_code = UNAUTHORIZED | VALIDATION_ERROR | NOT_FOUND | INTERNAL_ERROR

record sanitized =
  s_id :: string
  s_name :: string
  s_prefix :: string
  s_permissions :: "string list"
  s_createdAt :: int
  s_lastUsedAt :: "int option"
  s_expiresAt :: "int option"
  s_revoked :: bool

record created =
  c_key :: string
  c_id :: string
  c_name :: string
  c_prefix :: string
  c_permissions :: "string list"
  c_createdAt :: int
  c_expiresAt :: "int option"

datatype payload =
  ErrorBody error_code string
  | CreatedBody created
  | ListBody "sanitized list"
  | RecordBody sanitized

type_synonym response = "nat \<times> payload"

definition errorResponse :: "error_code \<Rightarrow> string \<Rightarrow> nat \<Rightarrow> response" where
  "errorResponse code message status = (status, ErrorBody code message)"

definition successResponse :: "payload \<Rightarrow> nat \<Rightarrow> response" where
  "successResponse data status = (status, data)"

section \<open>The middleware\<close>

text \<open>
  A middleware either calls \<open>next()\<close>, with what it put in \<open>req.apiKey\<close>, or answers the
  request itself. Its result also carries the table it leaves and the keys it passed to
  \<open>store.validate\<close>, in order.
\<close>

datatype outcome = Next "ApiKeyRecord option" | Respond response

type_synonym gate_result = "outcome \<times> table \<times> string list"

definition createApiKeyAuth ::
  "(string \<Rightarrow> string) \<Rightarrow> int \<Rightarrow> int \<Rightarrow> bool \<Rightarrow> string option \<Rightarrow> table \<Rightarrow> gate_result" where
  "createApiKeyAuth h t_check t_touch touch_throws authHeader s =
     (case authHeader of
        None \<Rightarrow>
          (Respond (errorResponse UNAUTHORIZED
             ''Missing Authorization header. Provide: Authorization: Bearer <api-key>'' 401), s, [])
      | Some hdr \<Rightarrow>
          if hdr = [] then
            (Respond (errorResponse UNAUTHORIZED
               ''Missing Authorization header. Provide: Authorization: Bearer <api-key>'' 401), s, [])
          else
            let parts = split_sp hdr in
            if length parts \<noteq> 2 \<or> parts ! 0 \<noteq> ''Bearer'' then
              (Respond (errorResponse UNAUTHORIZED
                 ''Invalid Authorization format. Expected: Bearer <api-key>'' 401), s, [])
            else
              let key = parts ! 1 in
              if key = [] \<or> \<not> startsWith key ''sk-'' then
                (Respond (errorResponse UNAUTHORIZED ''Invalid API key format'' 401), s, [])
              else
                (case validate h t_check t_touch touch_throws key s of
                   (None, s') \<Rightarrow>
                     (Respond (errorResponse UNAUTHORIZED ''Invalid or expired API key'' 401),
                      s', [key])
                 | (Some record, s') \<Rightarrow> (Next (Some record), s', [key])))"


section \<open>The routes\<close>

record create_body =
  b_name :: jsval
  b_permissions :: jsval
  b_expiresAt :: jsval

text \<open>
  The arguments the POST handler builds for \<open>store.create\<close>. \<open>permissions || ['*']\<close> is
  only reached with a falsy value or an array. \<open>expiresAt || null\<close> is null for a falsy
  value; a number is passed on as it is; a non-empty string is passed on and bound as
  text; an array is truthy whatever it holds, and the statement spreads it over its
  positional parameters, so that an array of one string binds that string and any other
  array gives the wrong number of parameters; \<open>true\<close> and an object cannot be bound. Where
  the value cannot be bound the statement throws.
\<close>

fun permissions_arg :: "jsval \<Rightarrow> string list option" where
  "permissions_arg (JArr xs) = Some xs"
| "permissions_arg v = Some [''*'']"

datatype expires_arg = Unbound | AsNumber "int option" | AsText string

fun expiresAt_arg :: "jsval \<Rightarrow> expires_arg" where
  "expiresAt_arg (JNum n) = AsNumber (if n = 0 then None else Some n)"
| "expiresAt_arg (JStr s) = (if s = [] then AsNumber None else AsText s)"
| "expiresAt_arg JUndefined = AsNumber None"
| "expiresAt_arg JNull = AsNumber None"
| "expiresAt_arg (JBool b) = (if b then Unbound else AsNumber None)"
| "expiresAt_arg (JArr [x]) = AsText x"
| "expiresAt_arg (JArr xs) = Unbound"
| "expiresAt_arg JObj = Unbound"

definition post_keys ::
  "(string \<Rightarrow> string) \<Rightarrow> (string \<Rightarrow> int option) \<Rightarrow> int \<Rightarrow> string \<Rightarrow> string \<Rightarrow> int
    \<Rightarrow> create_body \<Rightarrow> table \<Rightarrow> response \<times> table" where
  "post_keys h strToNum t_route random uuid t_store body s =
     (if (case b_name body of JStr n \<Rightarrow> n = [] \<or> length (trim n) = 0 | _ \<Rightarrow> True) then
        (errorResponse VALIDATION_ERROR ''Name is required and must be a non-empty string'' 400, s)
      else if (case b_name body of JStr n \<Rightarrow> length n > 100 | _ \<Rightarrow> False) then
        (errorResponse VALIDATION_ERROR ''Name must be 100 characters or less'' 400, s)
      else if truthy (b_permissions body) \<and> \<not> isArray (b_permissions body) then
        (errorResponse VALIDATION_ERROR ''Permissions must be an array of strings'' 400, s)
      else if b_expiresAt body \<noteq> JUndefined \<and> b_expiresAt body \<noteq> JNull \<and>
              (case Number_js strToNum (b_expiresAt body) of
                 None \<Rightarrow> True | Some expiry \<Rightarrow> expiry \<le> t_route) then
        (errorResponse VALIDATION_ERROR
           ''expiresAt must be a future Unix timestamp in milliseconds'' 400, s)
      else
        (case (case expiresAt_arg (b_expiresAt body) of
                 Unbound \<Rightarrow> Inl BindError
               | AsNumber e \<Rightarrow>
                   create h random uuid t_store
                     \<lparr> name_in = trim (case b_name body of JStr n \<Rightarrow> n | _ \<Rightarrow> []),
                       permissions_in = permissions_arg (b_permissions body),
                       expiresAt_in = e \<rparr> s
               | AsText x \<Rightarrow>
                   create_text h random uuid t_store
                     \<lparr> name_in = trim (case b_name body of JStr n \<Rightarrow> n | _ \<Rightarrow> []),
                       permissions_in = permissions_arg (b_permissions body),
                       expiresAt_in = None \<rparr> (strToNum x) s) of
           Inl err \<Rightarrow> (errorResponse INTERNAL_ERROR ''Failed to create API key'' 500, s)
         | Inr ((key, record), s') \<Rightarrow>
             (successResponse
                (CreatedBody \<lparr> c_key = key, c_id = id_r record, c_name = name record,
                               c_prefix = prefix_r record,
                               c_permissions = permissions record,
                               c_createdAt = createdAt record,
                               c_expiresAt = expiresAt record \<rparr>) 201, s')))"

definition sanitize :: "ApiKeyRecord \<Rightarrow> sanitized" where
  "sanitize k = \<lparr> s_id = id_r k, s_name = name k, s_prefix = prefix_r k,
                  s_permissions = permissions k, s_createdAt = createdAt k,
                  s_lastUsedAt = lastUsedAt k, s_expiresAt = expiresAt k,
                  s_revoked = revoked k \<rparr>"

text \<open>\<open>includeRevoked\<close> is the query parameter of that name, when the URL carries it.\<close>

definition get_keys :: "string option \<Rightarrow> table \<Rightarrow> response" where
  "get_keys includeRevoked s =
     (let keys = list_keys (includeRevoked = Some ''true'') s
      in successResponse (ListBody (map sanitize keys)) 200)"

definition get_key :: "string \<Rightarrow> table \<Rightarrow> response" where
  "get_key keyId s =
     (case getById keyId s of
        None \<Rightarrow> errorResponse NOT_FOUND ''API key not found'' 404
      | Some record \<Rightarrow> successResponse (RecordBody (sanitize record)) 200)"

section \<open>Looking a key up by its digest\<close>

lemma find_unique_hash:
  assumes "distinct (map keyHash s)" and "r \<in> set s" and "r' \<in> set s" and "keyHash r = keyHash r'"
  shows "r = r'"
  using assms by (meson distinct_map inj_onD)

lemma findByHash_Some:
  "stmt_findByHash kh s = Some r \<Longrightarrow> r \<in> set s \<and> keyHash r = kh \<and> \<not> revoked r"
  unfolding stmt_findByHash_def by (auto simp: find_Some_iff)

lemma findByHash_None:
  "stmt_findByHash kh s = None \<longleftrightarrow> (\<forall>r\<in>set s. keyHash r = kh \<longrightarrow> revoked r)"
  unfolding stmt_findByHash_def by (auto simp: find_None_iff)

lemma findByHash_unique:
  assumes "distinct (map keyHash s)" and "r \<in> set s" and "keyHash r = kh" and "\<not> revoked r"
  shows "stmt_findByHash kh s = Some r"
proof (cases "stmt_findByHash kh s")
  case None
  with assms show ?thesis by (auto simp: findByHash_None)
next
  case (Some r')
  then have "r' \<in> set s" "keyHash r' = kh" using findByHash_Some by auto
  with assms have "r' = r" using find_unique_hash by metis
  with Some show ?thesis by simp
qed



lemma validate_fst:
  "fst (validate h t_check t_touch touch_throws k s) =
     (case stmt_findByHash (h k) s of
        None \<Rightarrow> None
      | Some r \<Rightarrow> if (case expiresAt r of None \<Rightarrow> False | Some e \<Rightarrow> e \<noteq> 0 \<and> e < t_check)
                  then None else Some r)"
  by (simp add: validate_def split: option.splits)

text \<open>
  C1. On a table of the store, \<open>validate(k)\<close> returns the stored record exactly when a row
  has the digest of \<open>k\<close>, is not revoked, and has no expiry or one the clock has not passed;
  it returns absent exactly when no such row exists.
\<close>

theorem validate_iff:
  assumes "wf_table s"
  shows "(fst (validate h t_check t_touch touch_throws k s) = Some r \<longleftrightarrow>
            r \<in> set s \<and> keyHash r = h k \<and> \<not> revoked r \<and>
            (case expiresAt r of None \<Rightarrow> True | Some e \<Rightarrow> \<not> e < t_check)) \<and>
         (fst (validate h t_check t_touch touch_throws k s) = None \<longleftrightarrow>
            \<not> (\<exists>r'\<in>set s. keyHash r' = h k \<and> \<not> revoked r' \<and>
                 (case expiresAt r' of None \<Rightarrow> True | Some e \<Rightarrow> \<not> e < t_check)))"
proof -
  from assms have d: "distinct (map keyHash s)" and z: "\<forall>x\<in>set s. expiresAt x \<noteq> Some 0"
    by (auto simp: wf_table_def list_all_iff)
  show ?thesis
  proof (cases "stmt_findByHash (h k) s")
    case None
    then have "fst (validate h t_check t_touch touch_throws k s) = None"
      by (simp add: validate_fst)
    moreover from None have "\<forall>x\<in>set s. keyHash x = h k \<longrightarrow> revoked x"
      by (simp add: findByHash_None)
    ultimately show ?thesis by auto
  next
    case (Some r0)
    then have r0: "r0 \<in> set s" "keyHash r0 = h k" "\<not> revoked r0"
      using findByHash_Some by auto
    have uniq: "\<And>x. x \<in> set s \<Longrightarrow> keyHash x = h k \<Longrightarrow> x = r0"
      using d r0 find_unique_hash by metis
    from z r0 have nz: "expiresAt r0 \<noteq> Some 0" by blast
    have v: "fst (validate h t_check t_touch touch_throws k s) =
          (if (case expiresAt r0 of None \<Rightarrow> True | Some e \<Rightarrow> \<not> e < t_check) then Some r0 else None)"
      using Some nz by (auto simp add: validate_fst split: option.splits)
    show ?thesis
    proof (cases "case expiresAt r0 of None \<Rightarrow> True | Some e \<Rightarrow> \<not> e < t_check")
      case True
      with v have res: "fst (validate h t_check t_touch touch_throws k s) = Some r0" by simp
      have a: "(Some r0 = Some r) = (r \<in> set s \<and> keyHash r = h k \<and> \<not> revoked r \<and>
            (case expiresAt r of None \<Rightarrow> True | Some e \<Rightarrow> \<not> e < t_check))"
        using r0 True uniq [of r] by blast
      have b: "\<exists>r'\<in>set s. keyHash r' = h k \<and> \<not> revoked r' \<and>
                 (case expiresAt r' of None \<Rightarrow> True | Some e \<Rightarrow> \<not> e < t_check)"
        using r0 True by blast
      show ?thesis unfolding res using a b by simp
    next
      case False
      with v have res: "fst (validate h t_check t_touch touch_throws k s) = None" by simp
      have a: "\<not> (r \<in> set s \<and> keyHash r = h k \<and> \<not> revoked r \<and>
            (case expiresAt r of None \<Rightarrow> True | Some e \<Rightarrow> \<not> e < t_check))"
        using False uniq [of r] by blast
      have b: "\<not> (\<exists>r'\<in>set s. keyHash r' = h k \<and> \<not> revoked r' \<and>
                 (case expiresAt r' of None \<Rightarrow> True | Some e \<Rightarrow> \<not> e < t_check))"
        using False uniq by blast
      show ?thesis unfolding res using a b by simp
    qed
  qed
qed


theorem validate_iff_witness:
  "wf_table [\<lparr> id_r = ''u1'', name = ''CI Bot'', prefix_r = ''sk-0a1b2c3...'', keyHash = ''sk-0a1b2c3d'',
               permissions = [''*''], createdAt = 10, lastUsedAt = None, expiresAt = Some 50,
               revoked = False \<rparr>] \<and>
   fst (validate (\<lambda>k. k) 50 51 False ''sk-0a1b2c3d''
         [\<lparr> id_r = ''u1'', name = ''CI Bot'', prefix_r = ''sk-0a1b2c3...'', keyHash = ''sk-0a1b2c3d'',
             permissions = [''*''], createdAt = 10, lastUsedAt = None, expiresAt = Some 50,
             revoked = False \<rparr>]) =
     Some \<lparr> id_r = ''u1'', name = ''CI Bot'', prefix_r = ''sk-0a1b2c3...'', keyHash = ''sk-0a1b2c3d'',
            permissions = [''*''], createdAt = 10, lastUsedAt = None, expiresAt = Some 50,
            revoked = False \<rparr> \<and>
   fst (validate (\<lambda>k. k) 51 52 False ''sk-0a1b2c3d''
         [\<lparr> id_r = ''u1'', name = ''CI Bot'', prefix_r = ''sk-0a1b2c3...'', keyHash = ''sk-0a1b2c3d'',
             permissions = [''*''], createdAt = 10, lastUsedAt = None, expiresAt = Some 50,
             revoked = False \<rparr>]) = None"
proof -
  let ?r = "\<lparr> id_r = ''u1'', name = ''CI Bot'', prefix_r = ''sk-0a1b2c3...'', keyHash = ''sk-0a1b2c3d'',
               permissions = [''*''], createdAt = 10, lastUsedAt = None, expiresAt = Some 50,
               revoked = False \<rparr>"
  have wf: "wf_table [?r]" by (simp add: wf_table_def)
  have a: "fst (validate (\<lambda>k. k) 50 51 False ''sk-0a1b2c3d'' [?r]) = Some ?r"
    using validate_iff [OF wf, of "\<lambda>k. k" 50 51 False "''sk-0a1b2c3d''" ?r] by simp
  have b: "fst (validate (\<lambda>k. k) 51 52 False ''sk-0a1b2c3d'' [?r]) = None"
    using validate_iff [OF wf, of "\<lambda>k. k" 51 52 False "''sk-0a1b2c3d''" ?r] by simp
  from wf a b show ?thesis by blast
qed

section \<open>Tables the store has written\<close>

text \<open>
  Every method keeps \<open>wf_table\<close>, and the empty table has it: it holds of every table
  that the store's own calls have produced.
\<close>

lemma map_id_upd:
  assumes "\<And>r. id_r (f r) = id_r r"
  shows "map id_r (map (\<lambda>r. if P r then f r else r) s) = map id_r s"
  using assms by (induction s) auto

lemma map_hash_upd:
  assumes "\<And>r. keyHash (f r) = keyHash r"
  shows "map keyHash (map (\<lambda>r. if P r then f r else r) s) = map keyHash s"
  using assms by (induction s) auto

lemma wf_table_upd:
  assumes "wf_table s"
    and "\<And>r. id_r (f r) = id_r r" and "\<And>r. keyHash (f r) = keyHash r"
    and "\<And>r. expiresAt (f r) = expiresAt r"
  shows "wf_table (map (\<lambda>r. if P r then f r else r) s)"
proof -
  have "map id_r (map (\<lambda>r. if P r then f r else r) s) = map id_r s"
    using assms(2) by (rule map_id_upd)
  moreover have "map keyHash (map (\<lambda>r. if P r then f r else r) s) = map keyHash s"
    using assms(3) by (rule map_hash_upd)
  moreover have "list_all (\<lambda>r. expiresAt r \<noteq> Some 0) (map (\<lambda>r. if P r then f r else r) s)"
    using assms(1,4) by (auto simp: wf_table_def list_all_iff)
  ultimately show ?thesis using assms(1) unfolding wf_table_def by metis
qed

lemma wf_table_filter: "wf_table s \<Longrightarrow> wf_table (filter P s)"
  by (simp add: wf_table_def distinct_map_filter list_all_iff)

lemma or_null_nonzero: "or_null e \<noteq> Some 0"
  by (simp add: or_null_def split: option.splits)

lemma wf_table_create:
  assumes "wf_table s" and "create h random uuid now input s = Inr (res, s')"
  shows "wf_table s'"
  using assms
  by (auto simp: create_def stmt_insert_def wf_table_def Let_def or_null_nonzero
      split: if_splits)

lemma wf_table_validate: "wf_table s \<Longrightarrow> wf_table (snd (validate h t1 t2 b k s))"
  by (simp add: validate_def stmt_updateLastUsed_def wf_table_upd split: option.splits)

lemma wf_table_apply_op: "wf_table s \<Longrightarrow> wf_table (apply_op h op s)"
proof (cases op)
  case (OpCreate random uuid now input)
  then show "wf_table s \<Longrightarrow> ?thesis"
    using wf_table_create [of s h random uuid now input]
    by (auto split: sum.splits)
next
  case (OpValidate t1 t2 b k)
  then show "wf_table s \<Longrightarrow> ?thesis" by (simp add: wf_table_validate)
next
  case (OpRevoke i)
  then show "wf_table s \<Longrightarrow> ?thesis"
    by (simp add: revoke_def stmt_revoke_def wf_table_upd)
next
  case (OpDelete i)
  then show "wf_table s \<Longrightarrow> ?thesis"
    by (simp add: delete_key_def stmt_deleteKey_def wf_table_filter)
next
  case (OpUpdateName i n)
  then show "wf_table s \<Longrightarrow> ?thesis"
    by (simp add: updateName_def stmt_updateName_def wf_table_upd)
qed simp_all

lemma wf_table_run_ops: "wf_table s \<Longrightarrow> wf_table (run_ops h ops s)"
  by (induction ops arbitrary: s) (simp_all add: wf_table_apply_op)

lemma wf_table_empty: "wf_table []"
  by (simp add: wf_table_def)

lemma same_id_same_row:
  assumes "wf_table s" and "x \<in> set s" and "y \<in> set s" and "id_r x = id_r y"
  shows "x = y"
  using assms unfolding wf_table_def by (meson distinct_map inj_onD)

lemma upd_by_id_eq:
  assumes "wf_table s" and "r \<in> set s"
  shows "map (\<lambda>x. if id_r x = id_r r then f x else x) s = map (\<lambda>x. if x = r then f x else x) s"
proof (rule map_cong [OF refl])
  fix x assume "x \<in> set s"
  with assms same_id_same_row have "id_r x = id_r r \<longleftrightarrow> x = r" by metis
  then show "(if id_r x = id_r r then f x else x) = (if x = r then f x else x)" by simp
qed

lemma list_all_upd:
  assumes "list_all Q s" and "\<And>r. Q r \<Longrightarrow> Q (f r)"
  shows "list_all Q (map (\<lambda>r. if P r then f r else r) s)"
  using assms by (induction s) auto

section \<open>What validate writes\<close>

text \<open>
  C10. When \<open>validate\<close> returns absent the table is unchanged; when it returns a record the
  table differs at most in that record's \<open>lastUsedAt\<close>, which is set to the time of the touch
  (and not even that when the update throws); whether the update throws does not change
  the result.
\<close>

theorem validate_frame:
  assumes "wf_table s"
  shows "(fst (validate h t_check t_touch touch_throws k s) = None \<longrightarrow>
            snd (validate h t_check t_touch touch_throws k s) = s) \<and>
         (\<forall>r. fst (validate h t_check t_touch touch_throws k s) = Some r \<longrightarrow>
            snd (validate h t_check t_touch touch_throws k s) =
              (if touch_throws then s
               else map (\<lambda>x. if x = r then x\<lparr>lastUsedAt := Some t_touch\<rparr> else x) s)) \<and>
         fst (validate h t_check t_touch True k s) = fst (validate h t_check t_touch False k s)"
proof -
  have a: "fst (validate h t_check t_touch touch_throws k s) = None \<longrightarrow>
            snd (validate h t_check t_touch touch_throws k s) = s"
    by (simp add: validate_def split: option.splits)
  have b: "snd (validate h t_check t_touch touch_throws k s) =
              (if touch_throws then s
               else map (\<lambda>x. if x = r then x\<lparr>lastUsedAt := Some t_touch\<rparr> else x) s)"
    if "fst (validate h t_check t_touch touch_throws k s) = Some r" for r
  proof -
    from that have f: "stmt_findByHash (h k) s = Some r"
      by (simp add: validate_fst split: option.splits if_splits)
    then have "r \<in> set s" using findByHash_Some by blast
    with assms have "map (\<lambda>x. if id_r x = id_r r then x\<lparr>lastUsedAt := Some t_touch\<rparr> else x) s
        = map (\<lambda>x. if x = r then x\<lparr>lastUsedAt := Some t_touch\<rparr> else x) s"
      by (rule upd_by_id_eq)
    with that f show ?thesis
      by (simp add: validate_def stmt_updateLastUsed_def split: if_splits)
  qed
  have c: "fst (validate h t_check t_touch True k s) = fst (validate h t_check t_touch False k s)"
    by (simp add: validate_fst)
  from a b c show ?thesis by blast
qed


theorem validate_frame_witness:
  "wf_table [\<lparr> id_r = ''u1'', name = ''a'', prefix_r = ''sk-11...'', keyHash = ''sk-11'',
               permissions = [''*''], createdAt = 10, lastUsedAt = None, expiresAt = None,
               revoked = False \<rparr>,
             \<lparr> id_r = ''u2'', name = ''b'', prefix_r = ''sk-22...'', keyHash = ''sk-22'',
               permissions = [''*''], createdAt = 11, lastUsedAt = None, expiresAt = Some 15,
               revoked = False \<rparr>] \<and>
   snd (validate (\<lambda>k. k) 20 30 False ''sk-11''
         [\<lparr> id_r = ''u1'', name = ''a'', prefix_r = ''sk-11...'', keyHash = ''sk-11'',
             permissions = [''*''], createdAt = 10, lastUsedAt = None, expiresAt = None,
             revoked = False \<rparr>,
           \<lparr> id_r = ''u2'', name = ''b'', prefix_r = ''sk-22...'', keyHash = ''sk-22'',
             permissions = [''*''], createdAt = 11, lastUsedAt = None, expiresAt = Some 15,
             revoked = False \<rparr>]) =
     [\<lparr> id_r = ''u1'', name = ''a'', prefix_r = ''sk-11...'', keyHash = ''sk-11'',
        permissions = [''*''], createdAt = 10, lastUsedAt = Some 30, expiresAt = None,
        revoked = False \<rparr>,
      \<lparr> id_r = ''u2'', name = ''b'', prefix_r = ''sk-22...'', keyHash = ''sk-22'',
        permissions = [''*''], createdAt = 11, lastUsedAt = None, expiresAt = Some 15,
        revoked = False \<rparr>] \<and>
   snd (validate (\<lambda>k. k) 20 30 False ''sk-22''
         [\<lparr> id_r = ''u1'', name = ''a'', prefix_r = ''sk-11...'', keyHash = ''sk-11'',
             permissions = [''*''], createdAt = 10, lastUsedAt = None, expiresAt = None,
             revoked = False \<rparr>,
           \<lparr> id_r = ''u2'', name = ''b'', prefix_r = ''sk-22...'', keyHash = ''sk-22'',
             permissions = [''*''], createdAt = 11, lastUsedAt = None, expiresAt = Some 15,
             revoked = False \<rparr>]) =
     [\<lparr> id_r = ''u1'', name = ''a'', prefix_r = ''sk-11...'', keyHash = ''sk-11'',
        permissions = [''*''], createdAt = 10, lastUsedAt = None, expiresAt = None,
        revoked = False \<rparr>,
      \<lparr> id_r = ''u2'', name = ''b'', prefix_r = ''sk-22...'', keyHash = ''sk-22'',
        permissions = [''*''], createdAt = 11, lastUsedAt = None, expiresAt = Some 15,
        revoked = False \<rparr>]"
proof -
  let ?r1 = "\<lparr> id_r = ''u1'', name = ''a'', prefix_r = ''sk-11...'', keyHash = ''sk-11'',
               permissions = [''*''], createdAt = 10, lastUsedAt = None, expiresAt = None,
               revoked = False \<rparr>"
  let ?r2 = "\<lparr> id_r = ''u2'', name = ''b'', prefix_r = ''sk-22...'', keyHash = ''sk-22'',
               permissions = [''*''], createdAt = 11, lastUsedAt = None, expiresAt = Some 15,
               revoked = False \<rparr>"
  have wf: "wf_table [?r1, ?r2]" by (simp add: wf_table_def)
  have f1: "fst (validate (\<lambda>k. k) 20 30 False ''sk-11'' [?r1, ?r2]) = Some ?r1"
    by (simp add: validate_fst stmt_findByHash_def)
  have f2: "fst (validate (\<lambda>k. k) 20 30 False ''sk-22'' [?r1, ?r2]) = None"
    by (simp add: validate_fst stmt_findByHash_def)
  have a: "snd (validate (\<lambda>k. k) 20 30 False ''sk-11'' [?r1, ?r2]) =
             [?r1\<lparr>lastUsedAt := Some 30\<rparr>, ?r2]"
    using validate_frame [OF wf, of "\<lambda>k. k" 20 30 False "''sk-11''"] f1 by simp
  have b: "snd (validate (\<lambda>k. k) 20 30 False ''sk-22'' [?r1, ?r2]) = [?r1, ?r2]"
    using validate_frame [OF wf, of "\<lambda>k. k" 20 30 False "''sk-22''"] f2 by simp
  from wf a b show ?thesis by simp
qed

section \<open>Revoking\<close>

lemma revoke_fst: "fst (revoke i s) = (i \<in> set (map id_r s))"
proof -
  have "(filter (\<lambda>r. id_r r = i) s \<noteq> []) = (i \<in> set (map id_r s))"
    by (auto simp: filter_empty_conv)
  then show ?thesis by (simp add: revoke_def stmt_revoke_def)
qed

lemma revoke_snd:
  "snd (revoke i s) = map (\<lambda>r. if id_r r = i then r\<lparr>revoked := True\<rparr> else r) s"
  by (simp add: revoke_def stmt_revoke_def)

lemma revoke_snd_idem: "snd (revoke i (snd (revoke i s))) = snd (revoke i s)"
  by (simp add: revoke_snd)

lemma revoke_snd_same:
  assumes "\<forall>r\<in>set s. id_r r = i \<longrightarrow> revoked r"
  shows "snd (revoke i s) = s"
proof -
  have "map (\<lambda>r. if id_r r = i then r\<lparr>revoked := True\<rparr> else r) s = map (\<lambda>r. r) s"
    using assms by (intro map_cong) auto
  then show ?thesis by (simp add: revoke_snd)
qed

text \<open>
  C3, as the code has it. \<open>revoke(id)\<close> returns true exactly when the table holds a row with
  that id, revoked already or not; it sets the flag of that row and changes nothing else,
  so a second call returns the same result and leaves the table as the first call left it;
  on rows that are already revoked the table is unchanged; an unknown id gives false and
  the same table.
\<close>

theorem revoke_spec:
  "fst (revoke i s) = (i \<in> set (map id_r s)) \<and>
   snd (revoke i s) = map (\<lambda>r. if id_r r = i then r\<lparr>revoked := True\<rparr> else r) s \<and>
   fst (revoke i (snd (revoke i s))) = fst (revoke i s) \<and>
   snd (revoke i (snd (revoke i s))) = snd (revoke i s) \<and>
   ((\<forall>r\<in>set s. id_r r = i \<longrightarrow> revoked r) \<longrightarrow> snd (revoke i s) = s) \<and>
   (i \<notin> set (map id_r s) \<longrightarrow> revoke i s = (False, s))"
proof -
  have "map id_r (snd (revoke i s)) = map id_r s"
    unfolding revoke_snd by (rule map_id_upd) simp
  then have a: "fst (revoke i (snd (revoke i s))) = fst (revoke i s)"
    unfolding revoke_fst by simp
  have b: "revoke i s = (False, s)" if "i \<notin> set (map id_r s)"
  proof -
    from that have "\<forall>r\<in>set s. id_r r = i \<longrightarrow> revoked r" by auto
    then have "snd (revoke i s) = s" by (rule revoke_snd_same)
    moreover from that have "fst (revoke i s) = False" by (simp add: revoke_fst)
    ultimately show ?thesis by (simp add: prod_eq_iff)
  qed
  show ?thesis
    using a b revoke_fst [of i s] revoke_snd [of i s] revoke_snd_idem [of i s]
      revoke_snd_same [of s i] by blast
qed

theorem revoke_spec_witness:
  "revoke ''u1'' [\<lparr> id_r = ''u1'', name = ''a'', prefix_r = ''sk-11...'', keyHash = ''d1'',
                    permissions = [''*''], createdAt = 10, lastUsedAt = None, expiresAt = None,
                    revoked = False \<rparr>] =
     (True, [\<lparr> id_r = ''u1'', name = ''a'', prefix_r = ''sk-11...'', keyHash = ''d1'',
               permissions = [''*''], createdAt = 10, lastUsedAt = None, expiresAt = None,
               revoked = True \<rparr>]) \<and>
   snd (revoke ''u1'' [\<lparr> id_r = ''u1'', name = ''a'', prefix_r = ''sk-11...'', keyHash = ''d1'',
                    permissions = [''*''], createdAt = 10, lastUsedAt = None, expiresAt = None,
                    revoked = True \<rparr>]) =
     [\<lparr> id_r = ''u1'', name = ''a'', prefix_r = ''sk-11...'', keyHash = ''d1'',
               permissions = [''*''], createdAt = 10, lastUsedAt = None, expiresAt = None,
               revoked = True \<rparr>] \<and>
   revoke ''u2'' [\<lparr> id_r = ''u1'', name = ''a'', prefix_r = ''sk-11...'', keyHash = ''d1'',
                    permissions = [''*''], createdAt = 10, lastUsedAt = None, expiresAt = None,
                    revoked = False \<rparr>] =
     (False, [\<lparr> id_r = ''u1'', name = ''a'', prefix_r = ''sk-11...'', keyHash = ''d1'',
               permissions = [''*''], createdAt = 10, lastUsedAt = None, expiresAt = None,
               revoked = False \<rparr>])"
proof -
  let ?r = "\<lparr> id_r = ''u1'', name = ''a'', prefix_r = ''sk-11...'', keyHash = ''d1'',
                    permissions = [''*''], createdAt = 10, lastUsedAt = None, expiresAt = None,
                    revoked = False \<rparr>"
  have a: "revoke ''u1'' [?r] = (True, [?r\<lparr>revoked := True\<rparr>])"
    using revoke_spec [of "''u1''" "[?r]"] by (simp add: prod_eq_iff)
  have b: "snd (revoke ''u1'' [?r\<lparr>revoked := True\<rparr>]) = [?r\<lparr>revoked := True\<rparr>]"
    using revoke_spec [of "''u1''" "[?r\<lparr>revoked := True\<rparr>]"] by simp
  have c: "revoke ''u2'' [?r] = (False, [?r])"
    using revoke_spec [of "''u2''" "[?r]"] by simp
  from a b c show ?thesis by simp
qed

text \<open>
  C3 as stated fails: the second call on an id that is already revoked returns true, since
  the UPDATE selects the row again.
\<close>

theorem revoke_second_call_counterexample:
  "fst (revoke ''u1'' [\<lparr> id_r = ''u1'', name = ''a'', prefix_r = ''sk-11...'', keyHash = ''d1'',
                         permissions = [''*''], createdAt = 10, lastUsedAt = None,
                         expiresAt = None, revoked = False \<rparr>]) \<and>
   fst (revoke ''u1''
         (snd (revoke ''u1'' [\<lparr> id_r = ''u1'', name = ''a'', prefix_r = ''sk-11...'',
                                keyHash = ''d1'', permissions = [''*''], createdAt = 10,
                                lastUsedAt = None, expiresAt = None, revoked = False \<rparr>]))) \<noteq> False"
  by (simp add: revoke_def stmt_revoke_def)

section \<open>Listing\<close>

lemma sorted_list_keys:
  "sorted_wrt (\<lambda>a b. createdAt a \<ge> createdAt b) (list_keys includeRevoked s)"
proof -
  have "sorted (map (\<lambda>r. - createdAt r) (sort_key (\<lambda>r. - createdAt r) xs))" for xs :: table
    by (rule sorted_sort_key)
  then have "sorted_wrt (\<lambda>a b. createdAt a \<ge> createdAt b) (sort_key (\<lambda>r. - createdAt r) xs)"
    for xs :: table
    by (simp add: sorted_map)
  then show ?thesis
    by (simp add: list_keys_def stmt_listAll_def stmt_listActive_def)
qed

text \<open>
  C8. \<open>list(false)\<close> returns exactly the rows that are not revoked and \<open>list(true)\<close> all
  rows, each row as often as the table holds it; both are ordered by descending
  \<open>createdAt\<close>.
\<close>

theorem list_keys_spec:
  "mset (list_keys False s) = mset (filter (\<lambda>r. \<not> revoked r) s) \<and>
   mset (list_keys True s) = mset s \<and>
   sorted_wrt (\<lambda>a b. createdAt a \<ge> createdAt b) (list_keys includeRevoked s)"
  using sorted_list_keys [of includeRevoked s]
  by (simp add: list_keys_def stmt_listAll_def stmt_listActive_def)

section \<open>The revoked flag\<close>

lemma in_map_upd:
  assumes "r' \<in> set (map (\<lambda>r. if P r then f r else r) s)"
  shows "\<exists>r\<in>set s. r' = r \<or> r' = f r"
  using assms by auto

lemma origin_upd:
  assumes "r' \<in> set (map (\<lambda>x. if P x then f x else x) s)"
    and "\<And>x. id_r (f x) = id_r x" and "\<And>x. revoked x \<Longrightarrow> revoked (f x)"
  shows "\<exists>r0\<in>set s. id_r r' = id_r r0 \<and> (revoked r0 \<longrightarrow> revoked r')"
proof -
  from assms(1) obtain r0 where r0: "r0 \<in> set s" "r' = r0 \<or> r' = f r0"
    using in_map_upd by metis
  then have "id_r r' = id_r r0 \<and> (revoked r0 \<longrightarrow> revoked r')"
    using assms(2,3) by auto
  with r0 show ?thesis by blast
qed

lemma origin_same:
  assumes "r' \<in> set s"
  shows "\<exists>r0\<in>set s. id_r r' = id_r r0 \<and> (revoked r0 \<longrightarrow> revoked r')"
  using assms by blast

lemma apply_op_origin:
  assumes "r' \<in> set (apply_op h op s)"
  shows "(\<exists>r0\<in>set s. id_r r' = id_r r0 \<and> (revoked r0 \<longrightarrow> revoked r')) \<or>
         id_r r' \<notin> set (map id_r s)"
proof (cases op)
  case (OpCreate random uuid now input)
  with assms have "r' \<in> set s \<or> id_r r' \<notin> set (map id_r s)"
    by (auto simp: create_def stmt_insert_def Let_def split: if_splits)
  then show ?thesis using origin_same by blast
next
  case (OpValidate t1 t2 b k)
  with assms have "r' \<in> set s \<or>
      (\<exists>j. r' \<in> set (map (\<lambda>x. if id_r x = j then x\<lparr>lastUsedAt := Some t2\<rparr> else x) s))"
    by (auto simp: validate_def stmt_updateLastUsed_def split: option.splits if_splits)
  then show ?thesis
  proof
    assume "r' \<in> set s"
    then show ?thesis using origin_same by blast
  next
    assume "\<exists>j. r' \<in> set (map (\<lambda>x. if id_r x = j then x\<lparr>lastUsedAt := Some t2\<rparr> else x) s)"
    then obtain j where
      "r' \<in> set (map (\<lambda>x. if id_r x = j then x\<lparr>lastUsedAt := Some t2\<rparr> else x) s)" ..
    then have "\<exists>r0\<in>set s. id_r r' = id_r r0 \<and> (revoked r0 \<longrightarrow> revoked r')"
      by (rule origin_upd) simp_all
    then show ?thesis ..
  qed
next
  case (OpRevoke i)
  with assms have "r' \<in> set (map (\<lambda>x. if id_r x = i then x\<lparr>revoked := True\<rparr> else x) s)"
    by (simp add: revoke_def stmt_revoke_def)
  then have "\<exists>r0\<in>set s. id_r r' = id_r r0 \<and> (revoked r0 \<longrightarrow> revoked r')"
    by (rule origin_upd) simp_all
  then show ?thesis ..
next
  case (OpDelete i)
  with assms have "r' \<in> set s"
    by (simp add: delete_key_def stmt_deleteKey_def)
  then show ?thesis using origin_same by blast
next
  case (OpUpdateName i n)
  with assms have "r' \<in> set (map (\<lambda>x. if id_r x = i then x\<lparr>name := n\<rparr> else x) s)"
    by (simp add: updateName_def stmt_updateName_def)
  then have "\<exists>r0\<in>set s. id_r r' = id_r r0 \<and> (revoked r0 \<longrightarrow> revoked r')"
    by (rule origin_upd) simp_all
  then show ?thesis ..
next
  case (OpGetById i)
  with assms have "r' \<in> set s" by simp
  then show ?thesis using origin_same by blast
next
  case (OpList b)
  with assms have "r' \<in> set s" by simp
  then show ?thesis using origin_same by blast
next
  case OpActiveCount
  with assms have "r' \<in> set s" by simp
  then show ?thesis using origin_same by blast
qed

lemma apply_op_monotonic:
  assumes "wf_table s" and "r \<in> set s" and "revoked r"
    and "r' \<in> set (apply_op h op s)" and "id_r r' = id_r r"
  shows "revoked r'"
proof -
  from assms(2,5) have "id_r r' \<in> set (map id_r s)" by auto
  with apply_op_origin [OF assms(4)]
  obtain r0 where r0: "r0 \<in> set s" "id_r r' = id_r r0" "revoked r0 \<longrightarrow> revoked r'" by blast
  with assms(1,2,5) have "r0 = r" using same_id_same_row by metis
  with r0 assms(3) show ?thesis by simp
qed

lemma apply_op_keeps:
  assumes "op \<noteq> OpDelete i" and "\<exists>r\<in>set s. id_r r = i \<and> revoked r"
  shows "\<exists>r'\<in>set (apply_op h op s). id_r r' = i \<and> revoked r'"
proof -
  from assms(2) obtain r where r: "r \<in> set s" "id_r r = i" "revoked r" by blast
  have upd: "\<exists>r'\<in>set (map (\<lambda>x. if P x then f x else x) s). id_r r' = i \<and> revoked r'"
    if "id_r (f r) = id_r r" "revoked (f r)" for P and f :: "ApiKeyRecord \<Rightarrow> ApiKeyRecord"
  proof (cases "P r")
    case True
    with r have "f r \<in> set (map (\<lambda>x. if P x then f x else x) s)" by force
    with that r show ?thesis by metis
  next
    case False
    with r have "r \<in> set (map (\<lambda>x. if P x then f x else x) s)" by force
    with r show ?thesis by metis
  qed
  show ?thesis
  proof (cases op)
    case (OpCreate random uuid now input)
    with r show ?thesis
      by (auto simp: create_def stmt_insert_def Let_def split: if_splits)
  next
    case (OpValidate t1 t2 b k)
    have "\<exists>r'\<in>set (map (\<lambda>x. if id_r x = j then x\<lparr>lastUsedAt := Some t2\<rparr> else x) s).
            id_r r' = i \<and> revoked r'" for j
      using r by (intro upd) simp_all
    with OpValidate r show ?thesis
      by (simp add: validate_def stmt_updateLastUsed_def split: option.splits) blast
  next
    case (OpRevoke j)
    have "\<exists>r'\<in>set (map (\<lambda>x. if id_r x = j then x\<lparr>revoked := True\<rparr> else x) s).
            id_r r' = i \<and> revoked r'"
      using r by (intro upd) simp_all
    with OpRevoke show ?thesis by (simp add: revoke_def stmt_revoke_def)
  next
    case (OpDelete j)
    with assms(1) have "j \<noteq> i" by simp
    with r have "r \<in> set (filter (\<lambda>x. id_r x \<noteq> j) s)" by simp
    with OpDelete r show ?thesis
      by (simp add: delete_key_def stmt_deleteKey_def) blast
  next
    case (OpUpdateName j n)
    have "\<exists>r'\<in>set (map (\<lambda>x. if id_r x = j then x\<lparr>name := n\<rparr> else x) s).
            id_r r' = i \<and> revoked r'"
      using r by (intro upd) simp_all
    with OpUpdateName show ?thesis by (simp add: updateName_def stmt_updateName_def)
  next
    case (OpGetById j)
    with assms(2) show ?thesis by simp
  next
    case (OpList b)
    with assms(2) show ?thesis by simp
  next
    case OpActiveCount
    with assms(2) show ?thesis by simp
  qed
qed

lemma run_ops_keeps:
  assumes "OpDelete i \<notin> set ops" and "\<exists>r\<in>set s. id_r r = i \<and> revoked r"
  shows "\<exists>r'\<in>set (run_ops h ops s). id_r r' = i \<and> revoked r'"
  using assms
proof (induction ops arbitrary: s)
  case Nil
  then show ?case by simp
next
  case (Cons op ops)
  from Cons.prems have "op \<noteq> OpDelete i" by auto
  then have "\<exists>r'\<in>set (apply_op h op s). id_r r' = i \<and> revoked r'"
    using Cons.prems(2) by (rule apply_op_keeps)
  moreover from Cons.prems have "OpDelete i \<notin> set ops" by simp
  ultimately show ?case using Cons.IH by simp
qed

text \<open>
  C7. On a table of the store, no call of any method (create, validate, getById, list,
  revoke, delete, updateName, getActiveCount) leaves a row with the id of a revoked row
  that is not revoked; and through any sequence of calls that does not delete the id, the
  row is still there and still revoked.
\<close>

theorem revoked_monotonic:
  assumes "wf_table s" and "r \<in> set s" and "revoked r"
  shows "(\<forall>r'\<in>set (apply_op h op s). id_r r' = id_r r \<longrightarrow> revoked r') \<and>
         (OpDelete (id_r r) \<notin> set ops \<longrightarrow>
            (\<exists>r'\<in>set (run_ops h ops s). id_r r' = id_r r) \<and>
            (\<forall>r'\<in>set (run_ops h ops s). id_r r' = id_r r \<longrightarrow> revoked r'))"
proof -
  have a: "\<forall>r'\<in>set (apply_op h op s). id_r r' = id_r r \<longrightarrow> revoked r'"
    using assms apply_op_monotonic by blast
  have b: "(\<exists>r'\<in>set (run_ops h ops s). id_r r' = id_r r) \<and>
            (\<forall>r'\<in>set (run_ops h ops s). id_r r' = id_r r \<longrightarrow> revoked r')"
    if "OpDelete (id_r r) \<notin> set ops"
  proof -
    from assms have "\<exists>x\<in>set s. id_r x = id_r r \<and> revoked x" by blast
    with that obtain x where x: "x \<in> set (run_ops h ops s)" "id_r x = id_r r" "revoked x"
      using run_ops_keeps by blast
    have "wf_table (run_ops h ops s)" using assms(1) by (rule wf_table_run_ops)
    then have "\<And>y. y \<in> set (run_ops h ops s) \<Longrightarrow> id_r y = id_r r \<Longrightarrow> y = x"
      using x same_id_same_row by metis
    with x show ?thesis by blast
  qed
  from a b show ?thesis by blast
qed


theorem revoked_monotonic_witness:
  "wf_table [\<lparr> id_r = ''u1'', name = ''a'', prefix_r = ''sk-11...'', keyHash = ''sk-11'',
               permissions = [''*''], createdAt = 10, lastUsedAt = None, expiresAt = None,
               revoked = True \<rparr>] \<and>
   list_all revoked
     (filter (\<lambda>r'. id_r r' = ''u1'')
        (apply_op (\<lambda>k. k) (OpUpdateName ''u1'' ''b'')
           [\<lparr> id_r = ''u1'', name = ''a'', prefix_r = ''sk-11...'', keyHash = ''sk-11'',
               permissions = [''*''], createdAt = 10, lastUsedAt = None, expiresAt = None,
               revoked = True \<rparr>])) \<and>
   (\<exists>r'\<in>set (run_ops (\<lambda>k. k)
               [OpValidate 20 21 False ''sk-11'', OpRevoke ''u1'', OpDelete ''u2'',
                OpCreate ''22'' ''u2'' 30 \<lparr> name_in = ''c'', permissions_in = None,
                                            expiresAt_in = None \<rparr>]
               [\<lparr> id_r = ''u1'', name = ''a'', prefix_r = ''sk-11...'', keyHash = ''sk-11'',
                   permissions = [''*''], createdAt = 10, lastUsedAt = None, expiresAt = None,
                   revoked = True \<rparr>]). id_r r' = ''u1'' \<and> revoked r')"
proof -
  let ?r = "\<lparr> id_r = ''u1'', name = ''a'', prefix_r = ''sk-11...'', keyHash = ''sk-11'',
               permissions = [''*''], createdAt = 10, lastUsedAt = None, expiresAt = None,
               revoked = True \<rparr>"
  let ?ops = "[OpValidate 20 21 False ''sk-11'', OpRevoke ''u1'', OpDelete ''u2'',
                OpCreate ''22'' ''u2'' 30 \<lparr> name_in = ''c'', permissions_in = None,
                                            expiresAt_in = None \<rparr>]"
  have wf: "wf_table [?r]" by (simp add: wf_table_def)
  have mem: "?r \<in> set [?r]" by simp
  have rv: "revoked ?r" by simp
  have nd: "OpDelete (id_r ?r) \<notin> set ?ops" by simp
  from revoked_monotonic [OF wf mem rv, of "\<lambda>k. k" "OpUpdateName ''u1'' ''b''" ?ops] nd
  have "(\<forall>r'\<in>set (apply_op (\<lambda>k. k) (OpUpdateName ''u1'' ''b'') [?r]).
            id_r r' = id_r ?r \<longrightarrow> revoked r') \<and>
        (\<exists>r'\<in>set (run_ops (\<lambda>k. k) ?ops [?r]). id_r r' = id_r ?r) \<and>
        (\<forall>r'\<in>set (run_ops (\<lambda>k. k) ?ops [?r]). id_r r' = id_r ?r \<longrightarrow> revoked r')"
    by blast
  then have "(\<forall>r'\<in>set (apply_op (\<lambda>k. k) (OpUpdateName ''u1'' ''b'') [?r]).
            id_r r' = ''u1'' \<longrightarrow> revoked r') \<and>
        (\<exists>r'\<in>set (run_ops (\<lambda>k. k) ?ops [?r]). id_r r' = ''u1'' \<and> revoked r')"
    by (simp only: ApiKeyRecord.simps) blast
  then have "list_all revoked
        (filter (\<lambda>r'. id_r r' = ''u1'') (apply_op (\<lambda>k. k) (OpUpdateName ''u1'' ''b'') [?r])) \<and>
        (\<exists>r'\<in>set (run_ops (\<lambda>k. k) ?ops [?r]). id_r r' = ''u1'' \<and> revoked r')"
    unfolding list_all_iff by simp
  with wf show ?thesis by blast
qed

section \<open>Reading the Authorization header\<close>

lemma split_sp_nonempty: "split_sp s \<noteq> []"
  by (induction s) (auto split: list.splits)

lemma split_sp_single: "split_sp s = [b] \<longleftrightarrow> CHR '' '' \<notin> set s \<and> b = s"
proof (induction s arbitrary: b)
  case Nil
  show ?case by auto
next
  case (Cons c cs)
  show ?case
  proof (cases "c = CHR '' ''")
    case True
    then show ?thesis using split_sp_nonempty [of cs] by simp
  next
    case False
    obtain p ps where sp: "split_sp cs = p # ps"
      using split_sp_nonempty [of cs] by (cases "split_sp cs") auto
    have "split_sp (c # cs) = (c # p) # ps" using False sp by simp
    then have "split_sp (c # cs) = [b] \<longleftrightarrow> ps = [] \<and> b = c # p" by auto
    also have "\<dots> \<longleftrightarrow> split_sp cs = [p] \<and> b = c # p" using sp by auto
    also have "\<dots> \<longleftrightarrow> CHR '' '' \<notin> set cs \<and> p = cs \<and> b = c # p" using Cons.IH [of p] by auto
    also have "\<dots> \<longleftrightarrow> CHR '' '' \<notin> set (c # cs) \<and> b = c # cs"
    proof
      assume "CHR '' '' \<notin> set cs \<and> p = cs \<and> b = c # p"
      then show "CHR '' '' \<notin> set (c # cs) \<and> b = c # cs" using False by auto
    next
      assume a: "CHR '' '' \<notin> set (c # cs) \<and> b = c # cs"
      then have "CHR '' '' \<notin> set cs" by simp
      then have "split_sp cs = [cs]" using Cons.IH [of cs] by simp
      with sp have "p = cs" by simp
      with a show "CHR '' '' \<notin> set cs \<and> p = cs \<and> b = c # p" by simp
    qed
    finally show ?thesis .
  qed
qed

lemma split_sp_pair:
  "split_sp s = [a, b] \<longleftrightarrow> s = a @ CHR '' '' # b \<and> CHR '' '' \<notin> set a \<and> CHR '' '' \<notin> set b"
proof (induction s arbitrary: a)
  case Nil
  show ?case by auto
next
  case (Cons c cs)
  show ?case
  proof (cases "c = CHR '' ''")
    case True
    then have "split_sp (c # cs) = [a, b] \<longleftrightarrow> a = [] \<and> split_sp cs = [b]" by auto
    also have "\<dots> \<longleftrightarrow> a = [] \<and> CHR '' '' \<notin> set cs \<and> b = cs" by (simp add: split_sp_single)
    also have "\<dots> \<longleftrightarrow> c # cs = a @ CHR '' '' # b \<and> CHR '' '' \<notin> set a \<and> CHR '' '' \<notin> set b"
      using True by (cases a) auto
    finally show ?thesis .
  next
    case False
    obtain p ps where sp: "split_sp cs = p # ps"
      using split_sp_nonempty [of cs] by (cases "split_sp cs") auto
    have "split_sp (c # cs) = (c # p) # ps" using False sp by simp
    then have "split_sp (c # cs) = [a, b] \<longleftrightarrow> a = c # p \<and> ps = [b]" by auto
    also have "\<dots> \<longleftrightarrow> (\<exists>a'. a = c # a' \<and> split_sp cs = [a', b])" using sp by auto
    also have "\<dots> \<longleftrightarrow> (\<exists>a'. a = c # a' \<and> cs = a' @ CHR '' '' # b \<and>
                              CHR '' '' \<notin> set a' \<and> CHR '' '' \<notin> set b)"
      using Cons.IH by simp
    also have "\<dots> \<longleftrightarrow> c # cs = a @ CHR '' '' # b \<and> CHR '' '' \<notin> set a \<and> CHR '' '' \<notin> set b"
      using False by (cases a) auto
    finally show ?thesis .
  qed
qed

lemma bearer_parts:
  "(length (split_sp hdr) = 2 \<and> split_sp hdr ! 0 = ''Bearer'') \<longleftrightarrow>
     (\<exists>t. hdr = ''Bearer '' @ t \<and> CHR '' '' \<notin> set t)"
proof
  assume a: "length (split_sp hdr) = 2 \<and> split_sp hdr ! 0 = ''Bearer''"
  then obtain x y where xy: "split_sp hdr = [x, y]"
    by (auto simp: numeral_2_eq_2 length_Suc_conv)
  with a have "x = ''Bearer''" by simp
  with xy have "hdr = ''Bearer'' @ CHR '' '' # y \<and> CHR '' '' \<notin> set y"
    by (simp add: split_sp_pair)
  then show "\<exists>t. hdr = ''Bearer '' @ t \<and> CHR '' '' \<notin> set t" by simp
next
  assume "\<exists>t. hdr = ''Bearer '' @ t \<and> CHR '' '' \<notin> set t"
  then obtain t where t: "hdr = ''Bearer'' @ CHR '' '' # t" "CHR '' '' \<notin> set t" by auto
  have "CHR '' '' \<notin> set ''Bearer''" by simp
  with t have "split_sp hdr = [''Bearer'', t]" using split_sp_pair by blast
  then show "length (split_sp hdr) = 2 \<and> split_sp hdr ! 0 = ''Bearer''" by simp
qed

lemma bearer_split:
  assumes "CHR '' '' \<notin> set t"
  shows "split_sp (''Bearer '' @ t) = [''Bearer'', t]"
proof -
  have "CHR '' '' \<notin> set ''Bearer''" by simp
  moreover have "''Bearer '' @ t = ''Bearer'' @ CHR '' '' # t" by simp
  ultimately show ?thesis using assms split_sp_pair by blast
qed


section \<open>The key gate\<close>

lemma createApiKeyAuth_bearer:
  assumes "CHR '' '' \<notin> set t"
  shows "createApiKeyAuth h t_check t_touch touch_throws (Some (''Bearer '' @ t)) s =
     (if \<not> startsWith t ''sk-'' then
        (Respond (errorResponse UNAUTHORIZED ''Invalid API key format'' 401), s, [])
      else
        (case validate h t_check t_touch touch_throws t s of
           (None, s') \<Rightarrow>
             (Respond (errorResponse UNAUTHORIZED ''Invalid or expired API key'' 401), s', [t])
         | (Some record, s') \<Rightarrow> (Next (Some record), s', [t])))"
proof -
  have sp: "split_sp (''Bearer '' @ t) = [''Bearer'', t]" using assms by (rule bearer_split)
  have e: "t = [] \<Longrightarrow> \<not> startsWith t ''sk-''" by (simp add: startsWith_def)
  have p0: "[''Bearer'', t] ! 0 = ''Bearer''" and p1: "[''Bearer'', t] ! 1 = t" by simp_all
  show ?thesis
    unfolding createApiKeyAuth_def option.case Let_def sp p0 p1
    using e by (simp del: split_sp.simps)
qed

lemma createApiKeyAuth_malformed:
  assumes "\<not> (\<exists>t. authHeader = Some (''Bearer '' @ t) \<and> CHR '' '' \<notin> set t)"
  shows "\<exists>msg. createApiKeyAuth h t_check t_touch touch_throws authHeader s =
           (Respond (errorResponse UNAUTHORIZED msg 401), s, [])"
proof (cases authHeader)
  case None
  then show ?thesis by (auto simp: createApiKeyAuth_def)
next
  case (Some hdr)
  with assms have "\<not> (\<exists>t. hdr = ''Bearer '' @ t \<and> CHR '' '' \<notin> set t)" by simp
  then have "length (split_sp hdr) \<noteq> 2 \<or> split_sp hdr ! 0 \<noteq> ''Bearer''"
    using bearer_parts [of hdr] by blast
  with Some show ?thesis
    unfolding createApiKeyAuth_def option.case Let_def by (cases "hdr = []") auto
qed

text \<open>
  C6. The key gate answers 401 and leaves the table alone when the header is missing or is
  not \<open>Bearer\<close>, one space, and a token without a space; a token without the \<open>sk-\<close> tag is
  answered 401 with no call of \<open>validate\<close>; a tagged token goes to \<open>validate\<close> once, and the
  gate answers 401 when that returns absent and otherwise attaches the record and calls
  \<open>next()\<close>.
\<close>

theorem createApiKeyAuth_spec:
  "((\<not> (\<exists>t. authHeader = Some (''Bearer '' @ t) \<and> CHR '' '' \<notin> set t)) \<longrightarrow>
      (\<exists>msg. createApiKeyAuth h t_check t_touch touch_throws authHeader s =
          (Respond (errorResponse UNAUTHORIZED msg 401), s, []))) \<and>
   (CHR '' '' \<notin> set t \<and> \<not> startsWith t ''sk-'' \<longrightarrow>
      createApiKeyAuth h t_check t_touch touch_throws (Some (''Bearer '' @ t)) s =
        (Respond (errorResponse UNAUTHORIZED ''Invalid API key format'' 401), s, [])) \<and>
   (CHR '' '' \<notin> set t \<and> startsWith t ''sk-'' \<and>
    validate h t_check t_touch touch_throws t s = (None, s') \<longrightarrow>
      createApiKeyAuth h t_check t_touch touch_throws (Some (''Bearer '' @ t)) s =
        (Respond (errorResponse UNAUTHORIZED ''Invalid or expired API key'' 401), s', [t])) \<and>
   (CHR '' '' \<notin> set t \<and> startsWith t ''sk-'' \<and>
    validate h t_check t_touch touch_throws t s = (Some record, s') \<longrightarrow>
      createApiKeyAuth h t_check t_touch touch_throws (Some (''Bearer '' @ t)) s =
        (Next (Some record), s', [t]))"
proof -
  have a: "(\<not> (\<exists>t. authHeader = Some (''Bearer '' @ t) \<and> CHR '' '' \<notin> set t)) \<longrightarrow>
      (\<exists>msg. createApiKeyAuth h t_check t_touch touch_throws authHeader s =
          (Respond (errorResponse UNAUTHORIZED msg 401), s, []))"
    using createApiKeyAuth_malformed by blast
  have b: "CHR '' '' \<notin> set t \<and> \<not> startsWith t ''sk-'' \<longrightarrow>
      createApiKeyAuth h t_check t_touch touch_throws (Some (''Bearer '' @ t)) s =
        (Respond (errorResponse UNAUTHORIZED ''Invalid API key format'' 401), s, [])"
    using createApiKeyAuth_bearer [of t h t_check t_touch touch_throws s] by simp
  have c: "CHR '' '' \<notin> set t \<and> startsWith t ''sk-'' \<and>
    validate h t_check t_touch touch_throws t s = (None, s') \<longrightarrow>
      createApiKeyAuth h t_check t_touch touch_throws (Some (''Bearer '' @ t)) s =
        (Respond (errorResponse UNAUTHORIZED ''Invalid or expired API key'' 401), s', [t])"
    using createApiKeyAuth_bearer [of t h t_check t_touch touch_throws s] by simp
  have d: "CHR '' '' \<notin> set t \<and> startsWith t ''sk-'' \<and>
    validate h t_check t_touch touch_throws t s = (Some record, s') \<longrightarrow>
      createApiKeyAuth h t_check t_touch touch_throws (Some (''Bearer '' @ t)) s =
        (Next (Some record), s', [t])"
    using createApiKeyAuth_bearer [of t h t_check t_touch touch_throws s] by simp
  from a b c d show ?thesis by blast
qed

theorem createApiKeyAuth_spec_witness:
  "(\<exists>msg. createApiKeyAuth (\<lambda>k. k) 5 6 False None
       [\<lparr> id_r = ''u1'', name = ''a'', prefix_r = ''sk-11...'', keyHash = ''sk-11'',
           permissions = [''read''], createdAt = 1, lastUsedAt = None, expiresAt = None,
           revoked = False \<rparr>] =
      (Respond (errorResponse UNAUTHORIZED msg 401),
       [\<lparr> id_r = ''u1'', name = ''a'', prefix_r = ''sk-11...'', keyHash = ''sk-11'',
           permissions = [''read''], createdAt = 1, lastUsedAt = None, expiresAt = None,
           revoked = False \<rparr>], [])) \<and>
   createApiKeyAuth (\<lambda>k. k) 5 6 False (Some ''Bearer xx-11'')
       [\<lparr> id_r = ''u1'', name = ''a'', prefix_r = ''sk-11...'', keyHash = ''sk-11'',
           permissions = [''read''], createdAt = 1, lastUsedAt = None, expiresAt = None,
           revoked = False \<rparr>] =
      (Respond (errorResponse UNAUTHORIZED ''Invalid API key format'' 401),
       [\<lparr> id_r = ''u1'', name = ''a'', prefix_r = ''sk-11...'', keyHash = ''sk-11'',
           permissions = [''read''], createdAt = 1, lastUsedAt = None, expiresAt = None,
           revoked = False \<rparr>], []) \<and>
   createApiKeyAuth (\<lambda>k. k) 5 6 False (Some ''Bearer sk-11'')
       [\<lparr> id_r = ''u1'', name = ''a'', prefix_r = ''sk-11...'', keyHash = ''sk-11'',
           permissions = [''read''], createdAt = 1, lastUsedAt = None, expiresAt = None,
           revoked = False \<rparr>] =
      (Next (Some \<lparr> id_r = ''u1'', name = ''a'', prefix_r = ''sk-11...'', keyHash = ''sk-11'',
                    permissions = [''read''], createdAt = 1, lastUsedAt = None,
                    expiresAt = None, revoked = False \<rparr>),
       [\<lparr> id_r = ''u1'', name = ''a'', prefix_r = ''sk-11...'', keyHash = ''sk-11'',
           permissions = [''read''], createdAt = 1, lastUsedAt = Some 6, expiresAt = None,
           revoked = False \<rparr>], [''sk-11''])"
proof -
  let ?r = "\<lparr> id_r = ''u1'', name = ''a'', prefix_r = ''sk-11...'', keyHash = ''sk-11'',
           permissions = [''read''], createdAt = 1, lastUsedAt = None, expiresAt = None,
           revoked = False \<rparr>"
  have v: "validate (\<lambda>k. k) 5 6 False ''sk-11'' [?r] = (Some ?r, [?r\<lparr>lastUsedAt := Some 6\<rparr>])"
    by (simp add: validate_def stmt_findByHash_def stmt_updateLastUsed_def)
  have a: "\<exists>msg. createApiKeyAuth (\<lambda>k. k) 5 6 False None [?r] =
      (Respond (errorResponse UNAUTHORIZED msg 401), [?r], [])"
    using createApiKeyAuth_spec [of None "\<lambda>k. k" 5 6 False "[?r]"] by simp
  have b: "createApiKeyAuth (\<lambda>k. k) 5 6 False (Some (''Bearer '' @ ''xx-11'')) [?r] =
      (Respond (errorResponse UNAUTHORIZED ''Invalid API key format'' 401), [?r], [])"
    using createApiKeyAuth_spec [of _ "\<lambda>k. k" 5 6 False "[?r]" "''xx-11''"]
    by (simp add: startsWith_def)
  have c: "createApiKeyAuth (\<lambda>k. k) 5 6 False (Some (''Bearer '' @ ''sk-11'')) [?r] =
      (Next (Some ?r), [?r\<lparr>lastUsedAt := Some 6\<rparr>], [''sk-11''])"
    using createApiKeyAuth_spec [of _ "\<lambda>k. k" 5 6 False "[?r]" "''sk-11''"
        "[?r\<lparr>lastUsedAt := Some 6\<rparr>]" ?r] v
    by (simp add: startsWith_def)
  from a b c show ?thesis by simp
qed

section \<open>The admin gate\<close>







section \<open>The sanitized views\<close>

lemma sanitize_keyHash: "sanitize (r\<lparr>keyHash := x\<rparr>) = sanitize r"
  by (simp add: sanitize_def)

lemma insort_key_map_inv:
  assumes "\<And>x. f (g x) = f x"
  shows "insort_key f (g x) (map g xs) = map g (insort_key f x xs)"
  using assms by (induction xs) simp_all

lemma sort_key_map_inv:
  assumes "\<And>x. f (g x) = f x"
  shows "sort_key f (map g xs) = map g (sort_key f xs)"
proof (induction xs)
  case Nil
  show ?case by simp
next
  case (Cons x xs)
  have "sort_key f (map g (x # xs)) = insort_key f (g x) (sort_key f (map g xs))"
    by (simp add: sort_key_simps)
  also have "\<dots> = insort_key f (g x) (map g (sort_key f xs))" using Cons.IH by simp
  also have "\<dots> = map g (insort_key f x (sort_key f xs))"
    using assms by (rule insort_key_map_inv)
  finally show ?case by (simp add: sort_key_simps)
qed

lemma filter_map_inv:
  assumes "\<And>x. P (g x) = P x"
  shows "filter P (map g xs) = map g (filter P xs)"
  using assms by (induction xs) simp_all

lemma find_map_inv:
  assumes "\<And>x. P (g x) = P x"
  shows "find P (map g xs) = map_option g (find P xs)"
  using assms by (induction xs) simp_all

lemma list_keys_strip:
  "list_keys b (map (\<lambda>r. r\<lparr>keyHash := x\<rparr>) s) = map (\<lambda>r. r\<lparr>keyHash := x\<rparr>) (list_keys b s)"
proof -
  let ?g = "\<lambda>r. r\<lparr>keyHash := x\<rparr>"
  have k: "sort_key (\<lambda>r. - createdAt r) (map ?g xs) = map ?g (sort_key (\<lambda>r. - createdAt r) xs)"
    for xs
    by (rule sort_key_map_inv) simp
  have f: "filter (\<lambda>r. \<not> revoked r) (map ?g s) = map ?g (filter (\<lambda>r. \<not> revoked r) s)"
    by (rule filter_map_inv) simp
  show ?thesis
    unfolding list_keys_def stmt_listAll_def stmt_listActive_def f k by simp
qed

lemma get_keys_strip: "get_keys q (map (\<lambda>r. r\<lparr>keyHash := x\<rparr>) s) = get_keys q s"
  unfolding get_keys_def Let_def list_keys_strip
  by (simp add: o_def sanitize_keyHash)

lemma get_key_strip: "get_key i (map (\<lambda>r. r\<lparr>keyHash := x\<rparr>) s) = get_key i s"
proof -
  have "find (\<lambda>r. id_r r = i) (map (\<lambda>r. r\<lparr>keyHash := x\<rparr>) s) =
          map_option (\<lambda>r. r\<lparr>keyHash := x\<rparr>) (find (\<lambda>r. id_r r = i) s)"
    by (rule find_map_inv) simp
  then show ?thesis
    by (cases "find (\<lambda>r. id_r r = i) s")
       (simp_all add: get_key_def getById_def stmt_findById_def sanitize_keyHash)
qed

text \<open>
  C5. The answers of \<open>GET /keys\<close> and \<open>GET /keys/:id\<close> do not depend on the digest column:
  two tables that agree once every \<open>keyHash\<close> is blanked give the same answers. The
  sanitized record has no field for the digest, and the table holds no plaintext key.
\<close>

theorem sanitized_views_hide_digest:
  assumes "map (\<lambda>r. r\<lparr>keyHash := []\<rparr>) s1 = map (\<lambda>r. r\<lparr>keyHash := []\<rparr>) s2"
  shows "get_keys includeRevoked s1 = get_keys includeRevoked s2 \<and>
         get_key keyId s1 = get_key keyId s2"
proof -
  have "get_keys includeRevoked s1 = get_keys includeRevoked (map (\<lambda>r. r\<lparr>keyHash := []\<rparr>) s1)"
    by (simp add: get_keys_strip)
  also have "\<dots> = get_keys includeRevoked s2" unfolding assms by (rule get_keys_strip)
  finally have a: "get_keys includeRevoked s1 = get_keys includeRevoked s2" .
  have "get_key keyId s1 = get_key keyId (map (\<lambda>r. r\<lparr>keyHash := []\<rparr>) s1)"
    by (simp add: get_key_strip)
  also have "\<dots> = get_key keyId s2" unfolding assms by (rule get_key_strip)
  finally have b: "get_key keyId s1 = get_key keyId s2" .
  from a b show ?thesis ..
qed

theorem sanitized_views_hide_digest_witness:
  "get_keys (Some ''true'')
     [\<lparr> id_r = ''u1'', name = ''a'', prefix_r = ''sk-11...'', keyHash = ''d1'',
         permissions = [''*''], createdAt = 1, lastUsedAt = None, expiresAt = None,
         revoked = False \<rparr>] =
   get_keys (Some ''true'')
     [\<lparr> id_r = ''u1'', name = ''a'', prefix_r = ''sk-11...'', keyHash = ''d2'',
         permissions = [''*''], createdAt = 1, lastUsedAt = None, expiresAt = None,
         revoked = False \<rparr>] \<and>
   get_key ''u1''
     [\<lparr> id_r = ''u1'', name = ''a'', prefix_r = ''sk-11...'', keyHash = ''d1'',
         permissions = [''*''], createdAt = 1, lastUsedAt = None, expiresAt = None,
         revoked = False \<rparr>] =
   get_key ''u1''
     [\<lparr> id_r = ''u1'', name = ''a'', prefix_r = ''sk-11...'', keyHash = ''d2'',
         permissions = [''*''], createdAt = 1, lastUsedAt = None, expiresAt = None,
         revoked = False \<rparr>] \<and>
   get_key ''u1''
     [\<lparr> id_r = ''u1'', name = ''a'', prefix_r = ''sk-11...'', keyHash = ''d1'',
         permissions = [''*''], createdAt = 1, lastUsedAt = None, expiresAt = None,
         revoked = False \<rparr>] =
   successResponse (RecordBody \<lparr> s_id = ''u1'', s_name = ''a'', s_prefix = ''sk-11...'',
       s_permissions = [''*''], s_createdAt = 1, s_lastUsedAt = None, s_expiresAt = None,
       s_revoked = False \<rparr>) 200"
proof -
  let ?s1 = "[\<lparr> id_r = ''u1'', name = ''a'', prefix_r = ''sk-11...'', keyHash = ''d1'',
         permissions = [''*''], createdAt = 1, lastUsedAt = None, expiresAt = None,
         revoked = False \<rparr>]"
  let ?s2 = "[\<lparr> id_r = ''u1'', name = ''a'', prefix_r = ''sk-11...'', keyHash = ''d2'',
         permissions = [''*''], createdAt = 1, lastUsedAt = None, expiresAt = None,
         revoked = False \<rparr>]"
  have e: "map (\<lambda>r. r\<lparr>keyHash := []\<rparr>) ?s1 = map (\<lambda>r. r\<lparr>keyHash := []\<rparr>) ?s2" by simp
  have v: "get_key ''u1'' ?s1 =
     successResponse (RecordBody \<lparr> s_id = ''u1'', s_name = ''a'', s_prefix = ''sk-11...'',
       s_permissions = [''*''], s_createdAt = 1, s_lastUsedAt = None, s_expiresAt = None,
       s_revoked = False \<rparr>) 200"
    by (simp add: get_key_def getById_def stmt_findById_def sanitize_def)
  from sanitized_views_hide_digest [OF e, of "Some ''true''" "''u1''"] v
  show ?thesis by blast
qed

section \<open>Creating a key\<close>

lemma post_keys_rejects:
  assumes "(case b_name body of JStr n \<Rightarrow> trim n = [] \<or> length n > 100 | _ \<Rightarrow> True) \<or>
           (truthy (b_permissions body) \<and> \<not> isArray (b_permissions body)) \<or>
           (b_expiresAt body \<noteq> JUndefined \<and> b_expiresAt body \<noteq> JNull \<and>
            (case Number_js strToNum (b_expiresAt body) of
               None \<Rightarrow> True | Some expiry \<Rightarrow> expiry \<le> t_route))"
  shows "\<exists>msg. post_keys h strToNum t_route random uuid t_store body s =
           (errorResponse VALIDATION_ERROR msg 400, s)"
proof -
  have t: "n = [] \<Longrightarrow> trim n = []" for n by (simp add: trim_def)
  show ?thesis
    using assms t unfolding post_keys_def
    by (cases "b_name body") (auto split: if_splits)
qed

lemma create_fresh:
  assumes "uuid \<notin> set (map id_r s)" and "h (generateKey random) \<notin> set (map keyHash s)"
  shows "create h random uuid now input s =
     Inr ((generateKey random,
           \<lparr> id_r = uuid, name = name_in input,
              prefix_r = take 10 (generateKey random) @ ''...'',
              keyHash = h (generateKey random),
              permissions = or_star (permissions_in input), createdAt = now,
              lastUsedAt = None, expiresAt = or_null (expiresAt_in input),
              revoked = False \<rparr>),
          s @ [\<lparr> id_r = uuid, name = name_in input,
                  prefix_r = take 10 (generateKey random) @ ''...'',
                  keyHash = h (generateKey random),
                  permissions = or_star (permissions_in input), createdAt = now,
                  lastUsedAt = None, expiresAt = or_null (expiresAt_in input),
                  revoked = False \<rparr>])"
  using assms by (simp add: create_def stmt_insert_def Let_def)

lemma create_Inr:
  assumes "create h random uuid now input s = Inr ((key, record), s')"
  shows "key = generateKey random \<and> s' = s @ [record] \<and> id_r record = uuid \<and>
         permissions record = or_star (permissions_in input) \<and>
         expiresAt record = or_null (expiresAt_in input) \<and> \<not> revoked record"
  using assms by (auto simp: create_def stmt_insert_def Let_def split: if_splits)


lemma create_text_Inr:
  assumes "create_text h random uuid now input kept s = Inr ((key, row), s')"
  shows "key = generateKey random \<and> s' = s @ [row] \<and> id_r row = uuid \<and>
         permissions row = or_star (permissions_in input) \<and>
         expiresAt row = kept \<and> \<not> revoked row"
  using assms by (auto simp: create_text_def stmt_insert_def Let_def split: if_splits)

lemma or_star_arg: "or_star (permissions_arg p) = (case p of JArr xs \<Rightarrow> xs | _ \<Rightarrow> [''*''])"
  by (cases p) (simp_all add: or_star_def)

lemma post_keys_valid:
  assumes n: "b_name body = JStr n" "trim n \<noteq> []" "length n \<le> 100"
    and p: "\<not> truthy (b_permissions body) \<or> isArray (b_permissions body)"
    and e: "b_expiresAt body = JUndefined \<or> b_expiresAt body = JNull \<or>
            (\<exists>x. b_expiresAt body = JNum x \<and> t_route < x)"
    and fresh: "uuid \<notin> set (map id_r s)" "h (generateKey random) \<notin> set (map keyHash s)"
  shows "post_keys h strToNum t_route random uuid t_store body s =
     (successResponse
        (CreatedBody \<lparr> c_key = generateKey random, c_id = uuid, c_name = trim n,
                       c_prefix = take 10 (generateKey random) @ ''...'',
                       c_permissions = (case b_permissions body of JArr xs \<Rightarrow> xs | _ \<Rightarrow> [''*'']),
                       c_createdAt = t_store,
                       c_expiresAt = or_null (case b_expiresAt body of JNum x \<Rightarrow> Some x | _ \<Rightarrow> None) \<rparr>)
        201,
      s @ [\<lparr> id_r = uuid, name = trim n,
              prefix_r = take 10 (generateKey random) @ ''...'',
              keyHash = h (generateKey random),
              permissions = (case b_permissions body of JArr xs \<Rightarrow> xs | _ \<Rightarrow> [''*'']),
              createdAt = t_store, lastUsedAt = None,
              expiresAt = or_null (case b_expiresAt body of JNum x \<Rightarrow> Some x | _ \<Rightarrow> None),
              revoked = False \<rparr>])"
proof -
  from n have ne: "n \<noteq> []" by (auto simp: trim_def)
  obtain a where a: "expiresAt_arg (b_expiresAt body) = AsNumber a"
      "or_null a = or_null (case b_expiresAt body of JNum x \<Rightarrow> Some x | _ \<Rightarrow> None)"
    using e by (auto simp: or_null_def)
  have chk: "\<not> (b_expiresAt body \<noteq> JUndefined \<and> b_expiresAt body \<noteq> JNull \<and>
              (case Number_js strToNum (b_expiresAt body) of
                 None \<Rightarrow> True | Some expiry \<Rightarrow> expiry \<le> t_route))"
    using e by auto
  have c: "create h random uuid t_store
             \<lparr> name_in = trim n, permissions_in = permissions_arg (b_permissions body),
               expiresAt_in = a \<rparr> s =
           Inr ((generateKey random,
             \<lparr> id_r = uuid, name = trim n,
              prefix_r = take 10 (generateKey random) @ ''...'',
              keyHash = h (generateKey random),
              permissions = (case b_permissions body of JArr xs \<Rightarrow> xs | _ \<Rightarrow> [''*'']),
              createdAt = t_store, lastUsedAt = None,
              expiresAt = or_null (case b_expiresAt body of JNum x \<Rightarrow> Some x | _ \<Rightarrow> None),
              revoked = False \<rparr>),
             s @ [\<lparr> id_r = uuid, name = trim n,
              prefix_r = take 10 (generateKey random) @ ''...'',
              keyHash = h (generateKey random),
              permissions = (case b_permissions body of JArr xs \<Rightarrow> xs | _ \<Rightarrow> [''*'']),
              createdAt = t_store, lastUsedAt = None,
              expiresAt = or_null (case b_expiresAt body of JNum x \<Rightarrow> Some x | _ \<Rightarrow> None),
              revoked = False \<rparr>])"
    using create_fresh [of uuid s h random t_store
        "\<lparr> name_in = trim n, permissions_in = permissions_arg (b_permissions body),
           expiresAt_in = a \<rparr>"] fresh a(2)
    by (simp add: or_star_arg)
  show ?thesis
    unfolding post_keys_def
    using n ne p chk a(1) c by simp
qed

text \<open>
  C4, as the code has it. \<open>POST /keys\<close> answers 400 with \<open>VALIDATION_ERROR\<close>, and writes
  nothing, when the name is not a string, is blank or is longer than 100 characters, when
  \<open>permissions\<close> is truthy and not an array, or when \<open>expiresAt\<close> is neither undefined nor
  null and does not read as a number after the clock. With a valid name, permissions that
  are falsy or an array, an absent or future numeric \<open>expiresAt\<close>, and a generated id and
  digest that the table does not hold yet, it appends exactly one row and answers 201 with
  the plaintext key.
\<close>

theorem post_keys_spec:
  "(((case b_name body of JStr n \<Rightarrow> trim n = [] \<or> length n > 100 | _ \<Rightarrow> True) \<or>
     (truthy (b_permissions body) \<and> \<not> isArray (b_permissions body)) \<or>
     (b_expiresAt body \<noteq> JUndefined \<and> b_expiresAt body \<noteq> JNull \<and>
      (case Number_js strToNum (b_expiresAt body) of
         None \<Rightarrow> True | Some expiry \<Rightarrow> expiry \<le> t_route))) \<longrightarrow>
    (\<exists>msg. post_keys h strToNum t_route random uuid t_store body s =
           (errorResponse VALIDATION_ERROR msg 400, s))) \<and>
   (b_name body = JStr n \<and> trim n \<noteq> [] \<and> length n \<le> 100 \<and>
    (\<not> truthy (b_permissions body) \<or> isArray (b_permissions body)) \<and>
    (b_expiresAt body = JUndefined \<or> b_expiresAt body = JNull \<or>
     (\<exists>x. b_expiresAt body = JNum x \<and> t_route < x)) \<and>
    uuid \<notin> set (map id_r s) \<and> h (generateKey random) \<notin> set (map keyHash s) \<longrightarrow>
    post_keys h strToNum t_route random uuid t_store body s =
     (successResponse
        (CreatedBody \<lparr> c_key = generateKey random, c_id = uuid, c_name = trim n,
                       c_prefix = take 10 (generateKey random) @ ''...'',
                       c_permissions = (case b_permissions body of JArr xs \<Rightarrow> xs | _ \<Rightarrow> [''*'']),
                       c_createdAt = t_store,
                       c_expiresAt = or_null (case b_expiresAt body of JNum x \<Rightarrow> Some x | _ \<Rightarrow> None) \<rparr>)
        201,
      s @ [\<lparr> id_r = uuid, name = trim n,
              prefix_r = take 10 (generateKey random) @ ''...'',
              keyHash = h (generateKey random),
              permissions = (case b_permissions body of JArr xs \<Rightarrow> xs | _ \<Rightarrow> [''*'']),
              createdAt = t_store, lastUsedAt = None,
              expiresAt = or_null (case b_expiresAt body of JNum x \<Rightarrow> Some x | _ \<Rightarrow> None),
              revoked = False \<rparr>]))"
  using post_keys_rejects [where body = body and strToNum = strToNum and t_route = t_route
        and h = h and random = random and uuid = uuid and t_store = t_store and s = s]
    post_keys_valid [where body = body and n = n and strToNum = strToNum and t_route = t_route
        and h = h and random = random and uuid = uuid and t_store = t_store and s = s]
  by blast


theorem post_keys_spec_witness:
  "(\<exists>msg. post_keys (\<lambda>k. k) (\<lambda>x. None) 100 ''00'' ''u1'' 101
       \<lparr> b_name = JStr [], b_permissions = JUndefined, b_expiresAt = JUndefined \<rparr> [] =
     (errorResponse VALIDATION_ERROR msg 400, [])) \<and>
   (\<exists>msg. post_keys (\<lambda>k. k) (\<lambda>x. None) 100 ''00'' ''u1'' 101
       \<lparr> b_name = JStr ''CI Bot'', b_permissions = JStr ''all'', b_expiresAt = JUndefined \<rparr> [] =
     (errorResponse VALIDATION_ERROR msg 400, [])) \<and>
   (\<exists>msg. post_keys (\<lambda>k. k) (\<lambda>x. None) 100 ''00'' ''u1'' 101
       \<lparr> b_name = JStr ''CI Bot'', b_permissions = JUndefined, b_expiresAt = JNum 50 \<rparr> [] =
     (errorResponse VALIDATION_ERROR msg 400, [])) \<and>
   post_keys (\<lambda>k. k) (\<lambda>x. None) 100 ''00'' ''u1'' 101
       \<lparr> b_name = JStr ''CI Bot'', b_permissions = JUndefined, b_expiresAt = JNum 200 \<rparr> [] =
     (successResponse
        (CreatedBody \<lparr> c_key = ''sk-00'', c_id = ''u1'', c_name = ''CI Bot'',
                       c_prefix = ''sk-00...'', c_permissions = [''*''], c_createdAt = 101,
                       c_expiresAt = Some 200 \<rparr>) 201,
      [\<lparr> id_r = ''u1'', name = ''CI Bot'', prefix_r = ''sk-00...'', keyHash = ''sk-00'',
          permissions = [''*''], createdAt = 101, lastUsedAt = None, expiresAt = Some 200,
          revoked = False \<rparr>])"
proof -
  have tr: "trim ''CI Bot'' = ''CI Bot''" "trim [] = []" by (simp_all add: trim_def is_ws_def)
  have a: "\<exists>msg. post_keys (\<lambda>k. k) (\<lambda>x. None) 100 ''00'' ''u1'' 101
       \<lparr> b_name = JStr [], b_permissions = JUndefined, b_expiresAt = JUndefined \<rparr> [] =
     (errorResponse VALIDATION_ERROR msg 400, [])"
    using post_keys_spec [where body = "\<lparr> b_name = JStr [], b_permissions = JUndefined,
        b_expiresAt = JUndefined \<rparr>" and h = "\<lambda>k. k" and strToNum = "\<lambda>x. None" and t_route = 100
        and random = "''00''" and uuid = "''u1''" and t_store = 101 and s = "[]"] tr
    by simp
  have b: "\<exists>msg. post_keys (\<lambda>k. k) (\<lambda>x. None) 100 ''00'' ''u1'' 101
       \<lparr> b_name = JStr ''CI Bot'', b_permissions = JStr ''all'', b_expiresAt = JUndefined \<rparr> [] =
     (errorResponse VALIDATION_ERROR msg 400, [])"
    using post_keys_spec [where body = "\<lparr> b_name = JStr ''CI Bot'', b_permissions = JStr ''all'',
        b_expiresAt = JUndefined \<rparr>" and h = "\<lambda>k. k" and strToNum = "\<lambda>x. None" and t_route = 100
        and random = "''00''" and uuid = "''u1''" and t_store = 101 and s = "[]"]
    by simp
  have c: "\<exists>msg. post_keys (\<lambda>k. k) (\<lambda>x. None) 100 ''00'' ''u1'' 101
       \<lparr> b_name = JStr ''CI Bot'', b_permissions = JUndefined, b_expiresAt = JNum 50 \<rparr> [] =
     (errorResponse VALIDATION_ERROR msg 400, [])"
    using post_keys_spec [where body = "\<lparr> b_name = JStr ''CI Bot'', b_permissions = JUndefined,
        b_expiresAt = JNum 50 \<rparr>" and h = "\<lambda>k. k" and strToNum = "\<lambda>x. None" and t_route = 100
        and random = "''00''" and uuid = "''u1''" and t_store = 101 and s = "[]"]
    by simp
  have d: "post_keys (\<lambda>k. k) (\<lambda>x. None) 100 ''00'' ''u1'' 101
       \<lparr> b_name = JStr ''CI Bot'', b_permissions = JUndefined, b_expiresAt = JNum 200 \<rparr> [] =
     (successResponse
        (CreatedBody \<lparr> c_key = ''sk-00'', c_id = ''u1'', c_name = ''CI Bot'',
                       c_prefix = ''sk-00...'', c_permissions = [''*''], c_createdAt = 101,
                       c_expiresAt = Some 200 \<rparr>) 201,
      [\<lparr> id_r = ''u1'', name = ''CI Bot'', prefix_r = ''sk-00...'', keyHash = ''sk-00'',
          permissions = [''*''], createdAt = 101, lastUsedAt = None, expiresAt = Some 200,
          revoked = False \<rparr>])"
    using post_keys_spec [where body = "\<lparr> b_name = JStr ''CI Bot'', b_permissions = JUndefined,
        b_expiresAt = JNum 200 \<rparr>" and h = "\<lambda>k. k" and strToNum = "\<lambda>x. None" and t_route = 100
        and random = "''00''" and uuid = "''u1''" and t_store = 101 and s = "[]"
        and n = "''CI Bot''"] tr
    by (simp add: generateKey_def or_null_def)
  from a b c d show ?thesis by blast
qed

text \<open>
  C4 as stated fails: \<open>permissions: false\<close> is present and is not an array, and the request
  is accepted with the default permissions.
\<close>

theorem post_keys_falsy_permissions_counterexample:
  "\<not> isArray (JBool False) \<and>
   post_keys (\<lambda>k. k) (\<lambda>x. None) 100 ''00'' ''u1'' 101
       \<lparr> b_name = JStr ''CI Bot'', b_permissions = JBool False, b_expiresAt = JUndefined \<rparr> [] =
     (successResponse
        (CreatedBody \<lparr> c_key = ''sk-00'', c_id = ''u1'', c_name = ''CI Bot'',
                       c_prefix = ''sk-00...'', c_permissions = [''*''], c_createdAt = 101,
                       c_expiresAt = None \<rparr>) 201,
      [\<lparr> id_r = ''u1'', name = ''CI Bot'', prefix_r = ''sk-00...'', keyHash = ''sk-00'',
          permissions = [''*''], createdAt = 101, lastUsedAt = None, expiresAt = None,
          revoked = False \<rparr>])"
  by (simp add: post_keys_def trim_def is_ws_def create_def stmt_insert_def generateKey_def
      or_star_def or_null_def Let_def)

section \<open>Permissions of a new key\<close>

lemma post_keys_created:
  assumes "post_keys h strToNum t_route random uuid t_store body s =
             (successResponse (CreatedBody c) 201, s')"
  shows "(\<exists>row. s' = s @ [row] \<and> permissions row = c_permissions c) \<and>
         c_permissions c = (case b_permissions body of JArr xs \<Rightarrow> xs | _ \<Rightarrow> [''*''])"
proof -
  let ?input = "\<lambda>e. \<lparr> name_in = trim (case b_name body of JStr n \<Rightarrow> n | _ \<Rightarrow> []),
                     permissions_in = permissions_arg (b_permissions body),
                     expiresAt_in = e \<rparr>"
  let ?call = "case expiresAt_arg (b_expiresAt body) of
                 Unbound \<Rightarrow> Inl BindError
               | AsNumber e \<Rightarrow> create h random uuid t_store (?input e) s
               | AsText x \<Rightarrow> create_text h random uuid t_store (?input None) (strToNum x) s"
  have res: "(case ?call of
           Inl err \<Rightarrow> (errorResponse INTERNAL_ERROR ''Failed to create API key'' 500, s)
         | Inr ((key, record), s1) \<Rightarrow>
             (successResponse
                (CreatedBody \<lparr> c_key = key, c_id = id_r record, c_name = name record,
                               c_prefix = prefix_r record,
                               c_permissions = permissions record,
                               c_createdAt = createdAt record,
                               c_expiresAt = expiresAt record \<rparr>) 201, s1)) =
         (successResponse (CreatedBody c) 201, s')"
    using assms unfolding post_keys_def
    by (simp add: errorResponse_def successResponse_def split: if_splits)
  obtain key row where call: "?call = Inr ((key, row), s')"
    and c: "c_permissions c = permissions row"
  proof (cases ?call)
    case (Inl err)
    with res show ?thesis by (simp add: errorResponse_def successResponse_def)
  next
    case (Inr v)
    obtain key row s1 where v: "v = ((key, row), s1)" by (metis prod.exhaust)
    with Inr res have "s1 = s'" "c_permissions c = permissions row"
      by (auto simp: successResponse_def)
    with Inr v that show ?thesis by simp
  qed
  have "s' = s @ [row] \<and> permissions row = or_star (permissions_arg (b_permissions body))"
  proof (cases "expiresAt_arg (b_expiresAt body)")
    case Unbound
    with call show ?thesis by simp
  next
    case (AsNumber e)
    with call have "create h random uuid t_store (?input e) s = Inr ((key, row), s')" by simp
    from create_Inr [OF this] show ?thesis by simp
  next
    case (AsText x)
    with call have
      "create_text h random uuid t_store (?input None) (strToNum x) s = Inr ((key, row), s')"
      by simp
    from create_text_Inr [OF this] show ?thesis by simp
  qed
  with c show ?thesis by (simp add: or_star_arg)
qed

lemma or_star_empty: "or_star p = [] \<longleftrightarrow> p = Some []"
  by (cases p) (simp_all add: or_star_def)

lemma apply_op_permissions:
  assumes "list_all (\<lambda>r. permissions r \<noteq> []) s"
    and "case op of OpCreate random uuid now input \<Rightarrow> permissions_in input \<noteq> Some [] | _ \<Rightarrow> True"
  shows "list_all (\<lambda>r. permissions r \<noteq> []) (apply_op h op s)"
proof (cases op)
  case (OpCreate random uuid now input)
  with assms(2) have "or_star (permissions_in input) \<noteq> []" by (simp add: or_star_empty)
  with OpCreate assms(1) show ?thesis
    by (auto simp: create_def stmt_insert_def Let_def split: if_splits)
next
  case (OpValidate t1 t2 b k)
  have "list_all (\<lambda>r. permissions r \<noteq> [])
          (map (\<lambda>x. if id_r x = j then x\<lparr>lastUsedAt := Some t2\<rparr> else x) s)" for j
    using assms(1) by (rule list_all_upd) simp
  with OpValidate assms(1) show ?thesis
    by (simp add: validate_def stmt_updateLastUsed_def split: option.splits)
next
  case (OpRevoke i)
  have "list_all (\<lambda>r. permissions r \<noteq> [])
          (map (\<lambda>x. if id_r x = i then x\<lparr>revoked := True\<rparr> else x) s)"
    using assms(1) by (rule list_all_upd) simp
  with OpRevoke show ?thesis by (simp add: revoke_def stmt_revoke_def)
next
  case (OpDelete i)
  with assms(1) show ?thesis
    by (simp add: delete_key_def stmt_deleteKey_def list_all_iff)
next
  case (OpUpdateName i n)
  have "list_all (\<lambda>r. permissions r \<noteq> [])
          (map (\<lambda>x. if id_r x = i then x\<lparr>name := n\<rparr> else x) s)"
    using assms(1) by (rule list_all_upd) simp
  with OpUpdateName show ?thesis by (simp add: updateName_def stmt_updateName_def)
next
  case (OpGetById i)
  with assms(1) show ?thesis by simp
next
  case (OpList b)
  with assms(1) show ?thesis by simp
next
  case OpActiveCount
  with assms(1) show ?thesis by simp
qed

lemma run_ops_permissions:
  assumes "list_all (\<lambda>r. permissions r \<noteq> []) s"
    and "list_all (\<lambda>op. case op of OpCreate random uuid now input \<Rightarrow>
                          permissions_in input \<noteq> Some [] | _ \<Rightarrow> True) ops"
  shows "list_all (\<lambda>r. permissions r \<noteq> []) (run_ops h ops s)"
  using assms
proof (induction ops arbitrary: s)
  case Nil
  then show ?case by simp
next
  case (Cons op ops)
  from Cons.prems have "list_all (\<lambda>r. permissions r \<noteq> []) (apply_op h op s)"
    by (intro apply_op_permissions) simp_all
  moreover from Cons.prems have
    "list_all (\<lambda>op. case op of OpCreate random uuid now input \<Rightarrow>
                          permissions_in input \<noteq> Some [] | _ \<Rightarrow> True) ops" by simp
  ultimately show ?case using Cons.IH by simp
qed

text \<open>
  C9, as the code has it. A successful \<open>create\<close> appends one row; with permissions omitted
  the row holds \<open>["*"]\<close>, and its permissions are empty exactly when the call passed the
  empty array. The same holds of \<open>POST /keys\<close>. Hence every row has permissions as long as
  no \<open>create\<close> call passes the empty array.
\<close>

theorem create_permissions_spec:
  "(create h random uuid now input s = Inr ((key, row), s') \<longrightarrow>
      s' = s @ [row] \<and>
      (permissions_in input = None \<longrightarrow> permissions row = [''*'']) \<and>
      (permissions row = [] \<longleftrightarrow> permissions_in input = Some [])) \<and>
   (post_keys h strToNum t_route random uuid t_store body s =
      (successResponse (CreatedBody c) 201, s') \<longrightarrow>
      (\<exists>r. s' = s @ [r] \<and> permissions r = c_permissions c) \<and>
      (b_permissions body = JUndefined \<longrightarrow> c_permissions c = [''*'']) \<and>
      (c_permissions c = [] \<longleftrightarrow> b_permissions body = JArr [])) \<and>
   (list_all (\<lambda>r. permissions r \<noteq> []) s \<and>
    list_all (\<lambda>op. case op of OpCreate random uuid now input \<Rightarrow>
                       permissions_in input \<noteq> Some [] | _ \<Rightarrow> True) ops \<longrightarrow>
      list_all (\<lambda>r. permissions r \<noteq> []) (run_ops h ops s))"
proof -
  have a: "s' = s @ [row] \<and>
      (permissions_in input = None \<longrightarrow> permissions row = [''*'']) \<and>
      (permissions row = [] \<longleftrightarrow> permissions_in input = Some [])"
    if "create h random uuid now input s = Inr ((key, row), s')"
  proof -
    from create_Inr [OF that] have s: "s' = s @ [row]"
      and p: "permissions row = or_star (permissions_in input)" by simp_all
    from p have "permissions_in input = None \<longrightarrow> permissions row = [''*'']"
      by (simp add: or_star_def)
    moreover from p have "permissions row = [] \<longleftrightarrow> permissions_in input = Some []"
      by (simp add: or_star_empty)
    ultimately show ?thesis using s by blast
  qed
  have b: "(\<exists>r. s' = s @ [r] \<and> permissions r = c_permissions c) \<and>
      (b_permissions body = JUndefined \<longrightarrow> c_permissions c = [''*'']) \<and>
      (c_permissions c = [] \<longleftrightarrow> b_permissions body = JArr [])"
    if "post_keys h strToNum t_route random uuid t_store body s =
      (successResponse (CreatedBody c) 201, s')"
  proof -
    from post_keys_created [OF that]
    have r: "\<exists>r. s' = s @ [r] \<and> permissions r = c_permissions c"
      and p: "c_permissions c = (case b_permissions body of JArr xs \<Rightarrow> xs | _ \<Rightarrow> [''*''])"
      by blast+
    from p have "b_permissions body = JUndefined \<longrightarrow> c_permissions c = [''*'']" by simp
    moreover from p have "c_permissions c = [] \<longleftrightarrow> b_permissions body = JArr []"
      by (cases "b_permissions body") simp_all
    ultimately show ?thesis using r by blast
  qed
  from a b run_ops_permissions [of s ops h] show ?thesis by blast
qed

theorem create_permissions_spec_witness:
  "create (\<lambda>k. k) ''00'' ''u1'' 101
      \<lparr> name_in = ''CI Bot'', permissions_in = None, expiresAt_in = None \<rparr> [] =
     Inr ((''sk-00'',
           \<lparr> id_r = ''u1'', name = ''CI Bot'', prefix_r = ''sk-00...'', keyHash = ''sk-00'',
              permissions = [''*''], createdAt = 101, lastUsedAt = None, expiresAt = None,
              revoked = False \<rparr>),
          [\<lparr> id_r = ''u1'', name = ''CI Bot'', prefix_r = ''sk-00...'', keyHash = ''sk-00'',
              permissions = [''*''], createdAt = 101, lastUsedAt = None, expiresAt = None,
              revoked = False \<rparr>]) \<and>
   list_all (\<lambda>r. permissions r \<noteq> [])
     (run_ops (\<lambda>k. k)
        [OpCreate ''00'' ''u1'' 101
           \<lparr> name_in = ''CI Bot'', permissions_in = None, expiresAt_in = None \<rparr>,
         OpCreate ''01'' ''u2'' 102
           \<lparr> name_in = ''reader'', permissions_in = Some [''read''], expiresAt_in = None \<rparr>,
         OpRevoke ''u1''] [])"
proof -
  let ?in = "\<lparr> name_in = ''CI Bot'', permissions_in = None, expiresAt_in = None \<rparr>"
  let ?row = "\<lparr> id_r = ''u1'', name = ''CI Bot'', prefix_r = ''sk-00...'', keyHash = ''sk-00'',
              permissions = [''*''], createdAt = 101, lastUsedAt = None, expiresAt = None,
              revoked = False \<rparr>"
  let ?ops = "[OpCreate ''00'' ''u1'' 101 ?in,
         OpCreate ''01'' ''u2'' 102
           \<lparr> name_in = ''reader'', permissions_in = Some [''read''], expiresAt_in = None \<rparr>,
         OpRevoke ''u1'']"
  have cr: "create (\<lambda>k. k) ''00'' ''u1'' 101 ?in [] = Inr ((''sk-00'', ?row), [?row])"
    by (simp add: create_def stmt_insert_def generateKey_def or_star_def or_null_def Let_def)
  from create_permissions_spec [where h = "\<lambda>k. k" and random = "''00''" and uuid = "''u1''"
      and now = 101 and input = ?in and s = "[]" and key = "''sk-00''" and row = ?row
      and s' = "[?row]" and ops = ?ops] cr
  have "permissions ?row = [''*''] \<and>
        list_all (\<lambda>r. permissions r \<noteq> []) (run_ops (\<lambda>k. k) ?ops [])"
    by simp
  with cr show ?thesis by blast
qed

text \<open>
  C9 as stated fails: \<open>permissions: []\<close> is accepted, by the route and by the store, and
  the row written has no permissions.
\<close>

theorem create_empty_permissions_counterexample:
  "post_keys (\<lambda>k. k) (\<lambda>x. None) 100 ''00'' ''u1'' 101
       \<lparr> b_name = JStr ''CI Bot'', b_permissions = JArr [], b_expiresAt = JUndefined \<rparr> [] =
     (successResponse
        (CreatedBody \<lparr> c_key = ''sk-00'', c_id = ''u1'', c_name = ''CI Bot'',
                       c_prefix = ''sk-00...'', c_permissions = [], c_createdAt = 101,
                       c_expiresAt = None \<rparr>) 201,
      [\<lparr> id_r = ''u1'', name = ''CI Bot'', prefix_r = ''sk-00...'', keyHash = ''sk-00'',
          permissions = [], createdAt = 101, lastUsedAt = None, expiresAt = None,
          revoked = False \<rparr>]) \<and>
   create (\<lambda>k. k) ''00'' ''u1'' 101
      \<lparr> name_in = ''CI Bot'', permissions_in = Some [], expiresAt_in = None \<rparr> [] =
     Inr ((''sk-00'',
           \<lparr> id_r = ''u1'', name = ''CI Bot'', prefix_r = ''sk-00...'', keyHash = ''sk-00'',
              permissions = [], createdAt = 101, lastUsedAt = None, expiresAt = None,
              revoked = False \<rparr>),
          [\<lparr> id_r = ''u1'', name = ''CI Bot'', prefix_r = ''sk-00...'', keyHash = ''sk-00'',
              permissions = [], createdAt = 101, lastUsedAt = None, expiresAt = None,
              revoked = False \<rparr>])"
  by (simp add: post_keys_def trim_def is_ws_def create_def stmt_insert_def generateKey_def
      or_star_def or_null_def Let_def)

end
